theory Spec2Isabelle
  imports Main "HOL-Library.Char_ord" "HOL-Library.List_Lexorder"
begin

section \<open>The job history directory allocator of deadline.client.job_bundle\<close>

text \<open>
  The development embeds \<^verbatim>\<open>create_job_history_bundle_dir\<close> of
  \<^verbatim>\<open>src/deadline/client/job_bundle/__init__.py\<close>. A Python \<^verbatim>\<open>str\<close> is a
  \<^typ>\<open>string\<close>; a \<^typ>\<open>char\<close> is read as the Unicode code point of the same number,
  so the strings covered are those over the code points 0 to 255, and \<^const>\<open>length\<close> is
  Python's \<^verbatim>\<open>len\<close>. Python's \<^verbatim>\<open>int\<close> is \<^typ>\<open>int\<close>.
\<close>

subsection \<open>Characters and sanitization (lines 33-36 and 70)\<close>

text \<open>
  \<^verbatim>\<open>str.isalnum\<close> on one character, for the code points below 256: the decimal digits,
  the ASCII letters, and the letters and numeric characters of the Latin-1 supplement
  (U+00AA, U+00B2, U+00B3, U+00B5, U+00B9, U+00BA, U+00BC to U+00BE, U+00C0 to U+00D6,
  U+00D8 to U+00F6, U+00F8 to U+00FF).
\<close>

definition isalnum :: "char \<Rightarrow> bool" where
  "isalnum c =
     (let n = (of_char c :: nat)
      in (48 \<le> n \<and> n \<le> 57) \<or> (65 \<le> n \<and> n \<le> 90) \<or> (97 \<le> n \<and> n \<le> 122)
         \<or> n = 170 \<or> n = 178 \<or> n = 179 \<or> n = 181 \<or> n = 185 \<or> n = 186
         \<or> (188 \<le> n \<and> n \<le> 190) \<or> (192 \<le> n \<and> n \<le> 214)
         \<or> (216 \<le> n \<and> n \<le> 246) \<or> (248 \<le> n \<and> n \<le> 255))"

text \<open>The test of the generator expression: \<^verbatim>\<open>char.isalnum() or char in " -_"\<close>.\<close>

definition keep_char :: "char \<Rightarrow> bool" where
  "keep_char c = (isalnum c \<or> c \<in> set '' -_'')"

text \<open>
  \<^verbatim>\<open>"".join(char for char in name if char.isalnum() or char in " -_")\<close>: the generator
  walks the name from left to right and the join concatenates what it yields.
\<close>

fun sanitize :: "string \<Rightarrow> string" where
  "sanitize [] = []"
| "sanitize (c # cs) = (if keep_char c then c # sanitize cs else sanitize cs)"

subsection \<open>The clock and the two tags (lines 38-40)\<close>

text \<open>
  Of the \<^verbatim>\<open>datetime\<close> that \<^verbatim>\<open>datetime.datetime.now()\<close> returns the function reads the
  calendar date only.
\<close>

record timestamp =
  year :: nat
  month :: nat
  day :: nat

definition digit_char :: "nat \<Rightarrow> char" where
  "digit_char d = char_of (48 + d)"

text \<open>The decimal digits of a natural number, as \<^verbatim>\<open>str\<close> and the format codes write them.\<close>

fun str_nat :: "nat \<Rightarrow> string" where
  "str_nat n = (if n < 10 then [digit_char n] else str_nat (n div 10) @ [digit_char (n mod 10)])"

declare str_nat.simps [simp del]

definition zfill :: "nat \<Rightarrow> string \<Rightarrow> string" where
  "zfill w s = replicate (w - length s) CHR ''0'' @ s"

text \<open>
  \<^verbatim>\<open>strftime("%Y-%m")\<close> and \<^verbatim>\<open>strftime("%Y-%m-%d")\<close>: the year with century as four digits,
  month and day zero-padded to two.
\<close>

definition month_tag_of :: "timestamp \<Rightarrow> string" where
  "month_tag_of t = zfill 4 (str_nat (year t)) @ ''-'' @ zfill 2 (str_nat (month t))"

definition date_tag_of :: "timestamp \<Rightarrow> string" where
  "date_tag_of t = month_tag_of t @ ''-'' @ zfill 2 (str_nat (day t))"

text \<open>
  The format specification \<^verbatim>\<open>{number:02}\<close>: minimum width 2, padded with zeros after the
  sign; a wider number is written in full.
\<close>

definition format_02 :: "int \<Rightarrow> string" where
  "format_02 n = (if n < 0 then ''-'' @ zfill 1 (str_nat (nat (- n))) else zfill 2 (str_nat (nat n)))"

subsection \<open>Errors\<close>

text \<open>
  The exceptions that leave the function: \<^verbatim>\<open>RuntimeError\<close> is raised at line 65,
  \<^verbatim>\<open>ValueError\<close> by \<^verbatim>\<open>int\<close> at line 51, the others by \<^verbatim>\<open>os.makedirs\<close> at lines 44 and 74.
  The three kinds of \<^verbatim>\<open>OSError\<close> that the POSIX file system below raises are told apart;
  \<open>OSError\<close> stands for the one that \<^verbatim>\<open>os.makedirs\<close> raises under native Windows,
  of whatever kind.
\<close>

datatype error =
  RuntimeError | ValueError | FileExistsError | FileNotFoundError | NotADirectoryError | OSError

subsection \<open>Parsing the sequence number (line 51)\<close>

text \<open>
  \<^verbatim>\<open>int(s)\<close> on a string: white space around the literal is dropped, one sign may
  precede it, and the literal is decimal digits with single underscores allowed between
  digits. Below code point 256 the white space of \<^verbatim>\<open>int\<close> is U+0009 to U+000D, the
  space, U+0085 and U+00A0, and the decimal digits are the ASCII ones. (The interpreter's
  limit on the number of digits, 4300 by default, is beyond any directory name and is
  left out.)
\<close>

definition is_space :: "char \<Rightarrow> bool" where
  "is_space c = (let n = (of_char c :: nat) in (9 \<le> n \<and> n \<le> 13) \<or> n = 32 \<or> n = 133 \<or> n = 160)"

definition is_digit :: "char \<Rightarrow> bool" where
  "is_digit c = (let n = (of_char c :: nat) in 48 \<le> n \<and> n \<le> 57)"

definition digit_val :: "char \<Rightarrow> nat" where
  "digit_val c = of_char c - 48"

fun valid_digits :: "string \<Rightarrow> bool" where
  "valid_digits [] = False"
| "valid_digits [c] = is_digit c"
| "valid_digits (c # d # cs) =
     (is_digit c \<and> (if d = CHR ''_'' then valid_digits cs else valid_digits (d # cs)))"

definition digits_value :: "string \<Rightarrow> nat" where
  "digits_value s = foldl (\<lambda>a c. 10 * a + digit_val c) 0 (filter is_digit s)"

definition py_int :: "string \<Rightarrow> error + int" where
  "py_int s =
     (let s1 = dropWhile is_space s;
          neg = (s1 \<noteq> [] \<and> hd s1 = CHR ''-'');
          s2 = (if s1 \<noteq> [] \<and> (hd s1 = CHR ''+'' \<or> hd s1 = CHR ''-'') then tl s1 else s1);
          body = takeWhile (\<lambda>c. \<not> is_space c) s2;
          rest = dropWhile (\<lambda>c. \<not> is_space c) s2
      in if valid_digits body \<and> list_all is_space rest
         then Inr (if neg then - int (digits_value body) else int (digits_value body))
         else Inl ValueError)"

subsection \<open>Path names: \<^verbatim>\<open>posixpath\<close>\<close>

text \<open>
  \<^verbatim>\<open>posixpath\<close> is the module Python binds to \<^verbatim>\<open>os.path\<close> on every platform but native
  Windows (so also under \<^verbatim>\<open>sys.platform == "cygwin"\<close>). The functions below follow the
  library's code on strings. Under native Windows \<^verbatim>\<open>os.path\<close> is \<^verbatim>\<open>ntpath\<close>, which is not
  modelled: the environment of a call carries it as a parameter.
\<close>

definition posix_join :: "string \<Rightarrow> string \<Rightarrow> string" where
  "posix_join a b =
     (if b \<noteq> [] \<and> hd b = CHR ''/'' then b
      else if a = [] \<or> last a = CHR ''/'' then a @ b
      else a @ ''/'' @ b)"

definition rstrip_slash :: "string \<Rightarrow> string" where
  "rstrip_slash s = rev (dropWhile (\<lambda>c. c = CHR ''/'') (rev s))"

text \<open>\<^verbatim>\<open>posixpath.split\<close>: cut after the last slash, then strip the slashes that end the
  head unless the head is nothing but slashes.\<close>

definition posix_split :: "string \<Rightarrow> string \<times> string" where
  "posix_split p =
     (let head = rev (dropWhile (\<lambda>c. c \<noteq> CHR ''/'') (rev p));
          tail = rev (takeWhile (\<lambda>c. c \<noteq> CHR ''/'') (rev p))
      in (if head \<noteq> [] \<and> \<not> list_all (\<lambda>c. c = CHR ''/'') head then rstrip_slash head else head,
          tail))"

definition posix_basename :: "string \<Rightarrow> string" where
  "posix_basename p = rev (takeWhile (\<lambda>c. c \<noteq> CHR ''/'') (rev p))"

text \<open>\<^verbatim>\<open>path.split("/")\<close> and \<^verbatim>\<open>"/".join(comps)\<close>.\<close>

fun split_slash :: "string \<Rightarrow> string list" where
  "split_slash [] = [[]]"
| "split_slash (c # cs) =
     (if c = CHR ''/'' then [] # split_slash cs
      else (case split_slash cs of [] \<Rightarrow> [[c]] | x # xs \<Rightarrow> (c # x) # xs))"

fun join_slash :: "string list \<Rightarrow> string" where
  "join_slash [] = []"
| "join_slash [x] = x"
| "join_slash (x # y # ys) = x @ ''/'' @ join_slash (y # ys)"

text \<open>
  The loop of \<^verbatim>\<open>posixpath.normpath\<close> over the components, \<open>acc\<close> being
  \<^verbatim>\<open>new_comps\<close> and \<open>i\<close> the number of initial slashes kept.
\<close>

fun norm_comps :: "nat \<Rightarrow> string list \<Rightarrow> string list \<Rightarrow> string list" where
  "norm_comps i acc [] = acc"
| "norm_comps i acc (c # cs) =
     (if c = [] \<or> c = ''.'' then norm_comps i acc cs
      else if c \<noteq> ''..'' \<or> (i = 0 \<and> acc = []) \<or> (acc \<noteq> [] \<and> last acc = ''..'')
        then norm_comps i (acc @ [c]) cs
      else if acc \<noteq> [] then norm_comps i (butlast acc) cs
      else norm_comps i acc cs)"

definition initial_slashes :: "string \<Rightarrow> nat" where
  "initial_slashes p =
     (if take 1 p = ''/'' then (if take 2 p = ''//'' \<and> take 3 p \<noteq> ''///'' then 2 else 1) else 0)"

definition normpath :: "string \<Rightarrow> string" where
  "normpath p =
     (if p = [] then ''.''
      else let i = initial_slashes p;
               q = replicate i CHR ''/'' @ join_slash (norm_comps i [] (split_slash p))
           in if q = [] then ''.'' else q)"

definition isabs :: "string \<Rightarrow> bool" where
  "isabs p = (take 1 p = ''/'')"

text \<open>
  \<^verbatim>\<open>posixpath.expanduser\<close>. \<open>homes\<close> gives the home directory of a user name, the empty
  name standing for the current user (\<^verbatim>\<open>HOME\<close>, or else the password database); where it
  gives nothing the path is returned unchanged.
\<close>

definition expanduser :: "(string \<Rightarrow> string option) \<Rightarrow> string \<Rightarrow> string" where
  "expanduser homes path =
     (if take 1 path \<noteq> ''~'' then path
      else case homes (takeWhile (\<lambda>c. c \<noteq> CHR ''/'') (tl path)) of
             None \<Rightarrow> path
           | Some userhome \<Rightarrow>
               (let r = rstrip_slash userhome @ dropWhile (\<lambda>c. c \<noteq> CHR ''/'') (tl path)
                in if r = [] then ''/'' else r))"

subsection \<open>The file system\<close>

text \<open>
  A file system without symbolic links: a node is the list of names that leads to it from
  the root, and a state lists the nodes that are directories and those that are other
  files. The root, the empty list, is always a directory.
\<close>

type_synonym node = "string list"

record filesystem =
  dirs :: "node list"
  files :: "node list"

definition is_dir :: "filesystem \<Rightarrow> node \<Rightarrow> bool" where
  "is_dir fs n = (n = [] \<or> n \<in> set (dirs fs))"

definition node_exists :: "filesystem \<Rightarrow> node \<Rightarrow> bool" where
  "node_exists fs n = (is_dir fs n \<or> n \<in> set (files fs))"

text \<open>One component of a path name, followed from the directory \<open>cur\<close>.\<close>

definition step :: "node \<Rightarrow> string \<Rightarrow> node" where
  "step cur c = (if c = [] \<or> c = ''.'' then cur else if c = ''..'' then butlast cur else cur @ [c])"

text \<open>
  The kernel's walk along the components of a path name: every component is looked up in
  a directory, so the node reached before it must be one.
\<close>

fun walk :: "filesystem \<Rightarrow> node \<Rightarrow> string list \<Rightarrow> error + node" where
  "walk fs cur [] = Inr cur"
| "walk fs cur (c # cs) =
     (if is_dir fs cur then walk fs (step cur c) cs
      else if cur \<in> set (files fs) then Inl NotADirectoryError
      else Inl FileNotFoundError)"

definition start_node :: "node \<Rightarrow> string \<Rightarrow> node" where
  "start_node cwd p = (if take 1 p = ''/'' then [] else cwd)"

text \<open>\<^verbatim>\<open>os.stat\<close>: the node a path name denotes, which must exist.\<close>

definition lookup :: "filesystem \<Rightarrow> node \<Rightarrow> string \<Rightarrow> error + node" where
  "lookup fs cwd p =
     (if p = [] then Inl FileNotFoundError
      else case walk fs (start_node cwd p) (split_slash p) of
             Inl e \<Rightarrow> Inl e
           | Inr n \<Rightarrow> if node_exists fs n then Inr n else Inl FileNotFoundError)"

definition posix_isdir :: "filesystem \<Rightarrow> node \<Rightarrow> string \<Rightarrow> bool" where
  "posix_isdir fs cwd p = (case lookup fs cwd p of Inl e \<Rightarrow> False | Inr n \<Rightarrow> is_dir fs n)"

definition posix_exists :: "filesystem \<Rightarrow> node \<Rightarrow> string \<Rightarrow> bool" where
  "posix_exists fs cwd p = (case lookup fs cwd p of Inl e \<Rightarrow> False | Inr n \<Rightarrow> True)"

text \<open>\<^verbatim>\<open>os.listdir\<close>: the names in a directory.\<close>

definition children :: "filesystem \<Rightarrow> node \<Rightarrow> string list" where
  "children fs n = map last (filter (\<lambda>m. m \<noteq> [] \<and> butlast m = n) (dirs fs @ files fs))"

definition os_listdir :: "filesystem \<Rightarrow> node \<Rightarrow> string \<Rightarrow> error + string list" where
  "os_listdir fs cwd p =
     (case lookup fs cwd p of
        Inl e \<Rightarrow> Inl e
      | Inr n \<Rightarrow> if is_dir fs n then Inr (children fs n) else Inl NotADirectoryError)"

text \<open>
  \<^verbatim>\<open>os.mkdir\<close>: the parent must be a directory and the name must be new. Slashes that end
  the path name are ignored.
\<close>

definition rstrip_empty :: "string list \<Rightarrow> string list" where
  "rstrip_empty cs = rev (dropWhile (\<lambda>c. c = []) (rev cs))"

definition os_mkdir :: "filesystem \<Rightarrow> node \<Rightarrow> string \<Rightarrow> (error + unit) \<times> filesystem" where
  "os_mkdir fs cwd p =
     (let comps = rstrip_empty (split_slash p)
      in if p = [] then (Inl FileNotFoundError, fs)
         else if comps = [] then (Inl FileExistsError, fs)
         else case walk fs (start_node cwd p) (butlast comps) of
                Inl e \<Rightarrow> (Inl e, fs)
              | Inr parent \<Rightarrow>
                  if \<not> is_dir fs parent
                    then (Inl (if parent \<in> set (files fs) then NotADirectoryError
                               else FileNotFoundError), fs)
                  else if last comps = ''.'' \<or> last comps = ''..'' then (Inl FileExistsError, fs)
                  else if node_exists fs (parent @ [last comps]) then (Inl FileExistsError, fs)
                  else (Inr (), fs\<lparr>dirs := dirs fs @ [parent @ [last comps]]\<rparr>))"

text \<open>
  \<^verbatim>\<open>os.makedirs(name)\<close> with \<^verbatim>\<open>exist_ok=False\<close>, from the library's code: the head and
  tail it works on, then the recursion on the head where the head does not exist.
\<close>

definition makedirs_parts :: "string \<Rightarrow> string \<times> string" where
  "makedirs_parts name =
     (if snd (posix_split name) = [] then posix_split (fst (posix_split name))
      else posix_split name)"

lemma posix_split_length:
  "length (fst (posix_split p)) + length (snd (posix_split p)) \<le> length p"
proof -
  let ?h = "rev (dropWhile (\<lambda>c. c \<noteq> CHR ''/'') (rev p))"
  let ?t = "rev (takeWhile (\<lambda>c. c \<noteq> CHR ''/'') (rev p))"
  have "length (takeWhile (\<lambda>c. c \<noteq> CHR ''/'') (rev p)) + length (dropWhile (\<lambda>c. c \<noteq> CHR ''/'') (rev p))
        = length (rev p)"
    by (metis length_append takeWhile_dropWhile_id)
  then have sum: "length ?h + length ?t = length p" by simp
  have "length (rstrip_slash ?h) \<le> length ?h"
    by (simp add: rstrip_slash_def length_dropWhile_le)
  with sum show ?thesis by (simp add: posix_split_def Let_def)
qed

lemma posix_split_shorter:
  assumes "snd (posix_split p) \<noteq> []"
  shows "length (fst (posix_split p)) < length p"
proof (cases "snd (posix_split p)")
  case Nil
  with assms show ?thesis by simp
next
  case (Cons c cs)
  with posix_split_length [of p] show ?thesis by simp
qed

lemma makedirs_parts_shorter:
  assumes "snd (makedirs_parts name) \<noteq> []"
  shows "length (fst (makedirs_parts name)) < length name"
proof (cases "snd (posix_split name) = []")
  case True
  from posix_split_length [of name] have "length (fst (posix_split name)) \<le> length name"
    by simp
  moreover from assms True
  have "length (fst (makedirs_parts name)) < length (fst (posix_split name))"
    by (simp add: makedirs_parts_def posix_split_shorter)
  ultimately show ?thesis by simp
next
  case False
  then show ?thesis
    by (simp add: makedirs_parts_def posix_split_shorter)
qed

function makedirs :: "filesystem \<Rightarrow> node \<Rightarrow> string \<Rightarrow> (error + unit) \<times> filesystem" where
  "makedirs fs cwd name =
     (if fst (makedirs_parts name) \<noteq> [] \<and> snd (makedirs_parts name) \<noteq> []
         \<and> \<not> posix_exists fs cwd (fst (makedirs_parts name))
      then (case makedirs fs cwd (fst (makedirs_parts name)) of
              (Inl e, fs1) \<Rightarrow>
                if e = FileExistsError
                  then (if snd (makedirs_parts name) = ''.'' then (Inr (), fs1)
                        else os_mkdir fs1 cwd name)
                else (Inl e, fs1)
            | (Inr u, fs1) \<Rightarrow>
                if snd (makedirs_parts name) = ''.'' then (Inr (), fs1)
                else os_mkdir fs1 cwd name)
      else os_mkdir fs cwd name)"
  by pat_completeness auto
termination
  by (relation "measure (\<lambda>(fs, cwd, name). length name)") (auto simp: makedirs_parts_shorter)

declare makedirs.simps [simp del]

subsection \<open>Listing the entries of the day: \<^verbatim>\<open>glob.glob\<close> (line 48)\<close>

text \<open>\<^verbatim>\<open>glob.has_magic\<close>: the pattern contains one of the characters \<^verbatim>\<open>*\<close>, \<^verbatim>\<open>?\<close>
  and \<^verbatim>\<open>[\<close>.\<close>

definition has_magic :: "string \<Rightarrow> bool" where
  "has_magic s = list_ex (\<lambda>c. c \<in> set ''*?['') s"

definition startswith :: "string \<Rightarrow> string \<Rightarrow> bool" where
  "startswith s p = (take (length p) s = p)"

text \<open>
  \<^verbatim>\<open>glob.glob(pathname)\<close> is modelled for the patterns of the shape the function passes:
  a directory part without pattern characters, and a last part that is a literal text,
  not empty and not starting with a dot, followed by one \<^verbatim>\<open>*\<close>. There the result is
  the names in the directory that start with the literal text, each joined to the
  directory part; a directory that cannot be listed gives no name. For every other
  pattern (the directory part holds a pattern character, which \<^verbatim>\<open>glob\<close> then expands)
  the result is taken from the parameter \<open>other\<close>.
\<close>

definition simple_star :: "string \<Rightarrow> bool" where
  "simple_star b =
     (b \<noteq> [] \<and> last b = CHR ''*'' \<and> butlast b \<noteq> [] \<and> hd b \<noteq> CHR ''.'' \<and> \<not> has_magic (butlast b))"

definition posix_glob ::
  "(filesystem \<Rightarrow> string \<Rightarrow> string list) \<Rightarrow> filesystem \<Rightarrow> node \<Rightarrow> string \<Rightarrow> string list" where
  "posix_glob other fs cwd pathname =
     (let dirname = fst (posix_split pathname);
          basename = snd (posix_split pathname)
      in if dirname \<noteq> [] \<and> \<not> has_magic dirname \<and> simple_star basename
         then map (posix_join dirname)
                (filter (\<lambda>n. startswith n (butlast basename))
                   (case os_listdir fs cwd dirname of Inl e \<Rightarrow> [] | Inr names \<Rightarrow> names))
         else other fs pathname)"

subsection \<open>The environment of a call\<close>

text \<open>
  Under native Windows (\<^verbatim>\<open>sys.platform == "win32"\<close>) the library functions the function
  calls are those of \<^verbatim>\<open>ntpath\<close> and of the Windows file system. They are parameters:
  nothing is assumed about them. \<open>nt_makedirs\<close> gives whether \<^verbatim>\<open>os.makedirs\<close> returned
  (\<open>True\<close>) or raised an \<^verbatim>\<open>OSError\<close>, and the file system it left.
\<close>

record nt_library =
  nt_expanduser :: "string \<Rightarrow> string"
  nt_join :: "string \<Rightarrow> string \<Rightarrow> string"
  nt_abspath :: "string \<Rightarrow> string"
  nt_basename :: "string \<Rightarrow> string"
  nt_isdir :: "filesystem \<Rightarrow> string \<Rightarrow> bool"
  nt_makedirs :: "filesystem \<Rightarrow> string \<Rightarrow> bool \<times> filesystem"
  nt_glob :: "filesystem \<Rightarrow> string \<Rightarrow> string list"

text \<open>
  What the function reads besides its two arguments and the file system:
  \<^verbatim>\<open>sys.platform\<close>; the string \<^verbatim>\<open>str(get_setting("settings.job_history_dir"))\<close>
  (\<^verbatim>\<open>get_setting\<close> belongs to the configuration module, so its value is a parameter); the
  home directories \<^verbatim>\<open>posixpath.expanduser\<close> consults; the clock; the working directory of
  the process; the results of \<^verbatim>\<open>glob.glob\<close> for the patterns that are not modelled; and
  the library of native Windows.
\<close>

record env =
  platform :: string
  setting_job_history_dir :: string
  homes :: "string \<Rightarrow> string option"
  now :: timestamp
  cwd :: node
  glob_other :: "filesystem \<Rightarrow> string \<Rightarrow> string list"
  nt :: nt_library

text \<open>\<^verbatim>\<open>os.getcwd()\<close> and \<^verbatim>\<open>posixpath.abspath\<close>.\<close>

definition getcwd :: "env \<Rightarrow> string" where
  "getcwd e = ''/'' @ join_slash (cwd e)"

definition posix_abspath :: "env \<Rightarrow> string \<Rightarrow> string" where
  "posix_abspath e p = normpath (if isabs p then p else posix_join (getcwd e) p)"

subsection \<open>The library functions as the platform binds them\<close>

text \<open>
  \<^verbatim>\<open>os.path.expanduser\<close>, \<^verbatim>\<open>os.path.join\<close>, \<^verbatim>\<open>os.path.abspath\<close>,
  \<^verbatim>\<open>os.path.basename\<close>, \<^verbatim>\<open>os.path.isdir\<close>, \<^verbatim>\<open>os.makedirs\<close> and \<^verbatim>\<open>glob.glob\<close>:
  the functions of native Windows where \<^verbatim>\<open>sys.platform\<close> is \<^verbatim>\<open>win32\<close>, those modelled
  above everywhere else.
\<close>

definition os_path_expanduser :: "env \<Rightarrow> string \<Rightarrow> string" where
  "os_path_expanduser e p =
     (if platform e = ''win32'' then nt_expanduser (nt e) p else expanduser (homes e) p)"

definition os_path_join :: "env \<Rightarrow> string \<Rightarrow> string \<Rightarrow> string" where
  "os_path_join e a b = (if platform e = ''win32'' then nt_join (nt e) a b else posix_join a b)"

definition os_path_abspath :: "env \<Rightarrow> string \<Rightarrow> string" where
  "os_path_abspath e p = (if platform e = ''win32'' then nt_abspath (nt e) p else posix_abspath e p)"

definition os_path_basename :: "env \<Rightarrow> string \<Rightarrow> string" where
  "os_path_basename e p = (if platform e = ''win32'' then nt_basename (nt e) p else posix_basename p)"

definition os_path_isdir :: "env \<Rightarrow> filesystem \<Rightarrow> string \<Rightarrow> bool" where
  "os_path_isdir e fs p =
     (if platform e = ''win32'' then nt_isdir (nt e) fs p else posix_isdir fs (cwd e) p)"

definition os_makedirs :: "env \<Rightarrow> filesystem \<Rightarrow> string \<Rightarrow> (error + unit) \<times> filesystem" where
  "os_makedirs e fs p =
     (if platform e = ''win32''
      then (case nt_makedirs (nt e) fs p of
              (True, fs') \<Rightarrow> (Inr (), fs')
            | (False, fs') \<Rightarrow> (Inl OSError, fs'))
      else makedirs fs (cwd e) p)"

definition glob_glob :: "env \<Rightarrow> filesystem \<Rightarrow> string \<Rightarrow> string list" where
  "glob_glob e fs pathname =
     (if platform e = ''win32'' then nt_glob (nt e) fs pathname
      else posix_glob (glob_other e) fs (cwd e) pathname)"

subsection \<open>\<^verbatim>\<open>create_job_history_bundle_dir\<close>, stage by stage\<close>

text \<open>Lines 30-31 and 38-42: the history root and the month bucket.\<close>

definition job_history_dir_of :: "env \<Rightarrow> string" where
  "job_history_dir_of e = os_path_expanduser e (setting_job_history_dir e)"

definition month_dir_of :: "env \<Rightarrow> string" where
  "month_dir_of e = os_path_join e (job_history_dir_of e) (month_tag_of (now e))"

text \<open>Lines 43-44: \<^verbatim>\<open>if not os.path.isdir(month_dir): os.makedirs(month_dir)\<close>.\<close>

definition ensure_month_dir :: "env \<Rightarrow> filesystem \<Rightarrow> (error + unit) \<times> filesystem" where
  "ensure_month_dir e fs =
     (if \<not> os_path_isdir e fs (month_dir_of e) then os_makedirs e fs (month_dir_of e)
      else (Inr (), fs))"

text \<open>Line 48: \<^verbatim>\<open>sorted(glob.glob(os.path.join(month_dir, f"{date_tag}-*")))\<close>.\<close>

definition existing_dirs_of :: "env \<Rightarrow> filesystem \<Rightarrow> string list" where
  "existing_dirs_of e fs =
     sort (glob_glob e fs (os_path_join e (month_dir_of e) (date_tag_of (now e) @ ''-*'')))"

text \<open>
  Lines 47 and 49-51: the number is 1, or one more than the integer read from the last
  entry: its base name from position \<^verbatim>\<open>len(date_tag) + 1\<close> on, up to the first hyphen.
\<close>

definition sequence_token :: "env \<Rightarrow> string \<Rightarrow> string \<Rightarrow> string" where
  "sequence_token e date_tag latest_dir =
     takeWhile (\<lambda>c. c \<noteq> CHR ''-'')
       (drop (length date_tag + 1) (os_path_basename e latest_dir))"

definition next_number :: "env \<Rightarrow> string \<Rightarrow> string list \<Rightarrow> error + int" where
  "next_number e date_tag existing_dirs =
     (if existing_dirs \<noteq> []
      then (case py_int (sequence_token e date_tag (last existing_dirs)) of
              Inl err \<Rightarrow> Inl err
            | Inr n \<Rightarrow> Inr (n + 1))
      else Inr 1)"

text \<open>Line 53: \<^verbatim>\<open>f"{date_tag}-{number:02}-{submitter_name_cleaned}-"\<close>.\<close>

definition job_dir_prefix_of :: "string \<Rightarrow> int \<Rightarrow> string \<Rightarrow> string" where
  "job_dir_prefix_of date_tag number submitter_name_cleaned =
     date_tag @ ''-'' @ format_02 number @ ''-'' @ submitter_name_cleaned @ ''-''"

text \<open>
  Lines 55-67: the length allowed to the job name. \<open>path_budget\<close> is the value line 61
  computes on the two platforms named at line 60.
\<close>

definition short_path_platform :: "string \<Rightarrow> bool" where
  "short_path_platform p = (p \<in> set [''win32'', ''cygwin''])"

definition path_budget :: "env \<Rightarrow> string \<Rightarrow> int" where
  "path_budget e job_dir_prefix =
     min (207 - int (length (os_path_abspath e (os_path_join e (month_dir_of e) job_dir_prefix))))
       128"

definition max_job_name_prefix_of :: "env \<Rightarrow> string \<Rightarrow> error + int" where
  "max_job_name_prefix_of e job_dir_prefix =
     (if short_path_platform (platform e)
      then (if path_budget e job_dir_prefix < 1 then Inl RuntimeError
            else Inr (path_budget e job_dir_prefix))
      else Inr 128)"

text \<open>The slice \<^verbatim>\<open>s[:k]\<close> for an integer \<open>k\<close>; a negative \<open>k\<close> counts from the end.\<close>

definition slice_to :: "int \<Rightarrow> string \<Rightarrow> string" where
  "slice_to k s = (if k < 0 then take (length s - nat (- k)) s else take (nat k) s)"

text \<open>
  The function. An exception ends the call where it is raised, and the file system is
  then as the statements before it left it.
\<close>

definition create_job_history_bundle_dir ::
  "env \<Rightarrow> filesystem \<Rightarrow> string \<Rightarrow> string \<Rightarrow> (error + string) \<times> filesystem" where
  "create_job_history_bundle_dir e fs submitter_name job_name =
     (let submitter_name_cleaned = sanitize submitter_name;
          date_tag = date_tag_of (now e);
          month_dir = month_dir_of e
      in case ensure_month_dir e fs of
           (Inl err, fs1) \<Rightarrow> (Inl err, fs1)
         | (Inr u, fs1) \<Rightarrow>
             (case next_number e date_tag (existing_dirs_of e fs1) of
                Inl err \<Rightarrow> (Inl err, fs1)
              | Inr number \<Rightarrow>
                  (let job_dir_prefix = job_dir_prefix_of date_tag number submitter_name_cleaned
                   in case max_job_name_prefix_of e job_dir_prefix of
                        Inl err \<Rightarrow> (Inl err, fs1)
                      | Inr max_job_name_prefix \<Rightarrow>
                          (let job_name_cleaned = slice_to max_job_name_prefix (sanitize job_name);
                               result = os_path_join e month_dir (job_dir_prefix @ job_name_cleaned)
                           in case os_makedirs e fs1 result of
                                (Inl err, fs2) \<Rightarrow> (Inl err, fs2)
                              | (Inr u2, fs2) \<Rightarrow> (Inr result, fs2)))))"

section \<open>Auxiliary notions for the proofs\<close>

text \<open>
  What \<^const>\<open>posix_join\<close> puts before a second part that does not start with a slash, and
  the names a directory entry can have.
\<close>

definition dir_prefix :: "string \<Rightarrow> string" where
  "dir_prefix a = (if a = [] \<or> last a = CHR ''/'' then a else a @ ''/'')"

text \<open>The components of the directory part of a joined path name.\<close>

definition dir_comps :: "string \<Rightarrow> string list" where
  "dir_comps a = butlast (split_slash (dir_prefix a))"

definition valid_name :: "string \<Rightarrow> bool" where
  "valid_name w = (w \<noteq> [] \<and> w \<noteq> ''.'' \<and> w \<noteq> ''..'' \<and> CHR ''/'' \<notin> set w)"

text \<open>The characters of the two tags and of the formatted number.\<close>

definition tag_char :: "char \<Rightarrow> bool" where
  "tag_char c = (is_digit c \<or> c = CHR ''-'')"

section \<open>Concrete environments and file systems\<close>

text \<open>
  A sample of the library of native Windows, for the paths of the scenarios below: names
  joined to a drive-absolute, normalised path that does not end in a separator.
  \<^verbatim>\<open>ntpath.join\<close> puts a backslash between the two, \<^verbatim>\<open>ntpath.abspath\<close> and
  \<^verbatim>\<open>ntpath.expanduser\<close> return such a path as it is, and \<^verbatim>\<open>ntpath.basename\<close> is what
  follows the last backslash. The directories of the sample file system are kept under
  their whole path name; every directory can be made, with those above it.
\<close>

definition nt_sample :: nt_library where
  "nt_sample =
     \<lparr>nt_expanduser = (\<lambda>p. p),
      nt_join = (\<lambda>a b. a @ [CHR 0x5C] @ b),
      nt_abspath = (\<lambda>p. p),
      nt_basename = (\<lambda>p. rev (takeWhile (\<lambda>c. c \<noteq> CHR 0x5C) (rev p))),
      nt_isdir = (\<lambda>fs p. [p] \<in> set (dirs fs)),
      nt_makedirs = (\<lambda>fs p. if [p] \<in> set (dirs fs) then (False, fs)
                              else (True, fs\<lparr>dirs := dirs fs @ [[p]]\<rparr>)),
      nt_glob = (\<lambda>fs pattern. [])\<rparr>"

text \<open>
  A POSIX host with the history root \<^verbatim>\<open>/tmp/history\<close>, on 15 January 2023, and a file
  system that holds \<^verbatim>\<open>/tmp\<close> and the working directory only.
\<close>

definition env_linux :: env where
  "env_linux =
     \<lparr>platform = ''linux'', setting_job_history_dir = ''/tmp/history'',
      homes = (\<lambda>user. None), now = \<lparr>year = 2023, month = 1, day = 15\<rparr>,
      cwd = [''home'', ''user''], glob_other = (\<lambda>fs pattern. []), nt = nt_sample\<rparr>"

definition fs_tmp :: filesystem where
  "fs_tmp = \<lparr>dirs = [[''tmp''], [''home''], [''home'', ''user'']], files = []\<rparr>"

text \<open>
  The setting of the truncation test: a history root of 140 characters on 27 December
  2024 and a job name of 127 characters, under Cygwin and under Linux.
\<close>

definition env_cygwin_long :: env where
  "env_cygwin_long =
     \<lparr>platform = ''cygwin'', setting_job_history_dir = ''/tmp/'' @ replicate 135 CHR ''d'',
      homes = (\<lambda>user. None), now = \<lparr>year = 2024, month = 12, day = 27\<rparr>,
      cwd = [''home'', ''user''], glob_other = (\<lambda>fs pattern. []), nt = nt_sample\<rparr>"

definition env_linux_long :: env where
  "env_linux_long = env_cygwin_long\<lparr>platform := ''linux''\<rparr>"

definition job_name_127 :: string where
  "job_name_127 = ''job'' @ concat (replicate 12 ''1234567890'') @ ''1234''"

text \<open>The same host with the relative history root \<^verbatim>\<open>history\<close>.\<close>

definition env_relative :: env where
  "env_relative =
     \<lparr>platform = ''linux'', setting_job_history_dir = ''history'',
      homes = (\<lambda>user. None), now = \<lparr>year = 2023, month = 1, day = 15\<rparr>,
      cwd = [''home'', ''user''], glob_other = (\<lambda>fs pattern. []), nt = nt_sample\<rparr>"

text \<open>The file system once the history root \<^verbatim>\<open>/tmp/history\<close> has been created.\<close>

definition fs_history :: filesystem where
  "fs_history =
     \<lparr>dirs = [[''tmp''], [''home''], [''home'', ''user''], [''tmp'', ''history'']], files = []\<rparr>"

text \<open>
  A Windows host: the history root is \<^verbatim>\<open>C:\\<close> followed by 175 letters, on 27 December
  2024, and no directory has been made yet.
\<close>

definition env_win32 :: env where
  "env_win32 =
     \<lparr>platform = ''win32'', setting_job_history_dir = ''C:'' @ [CHR 0x5C] @ replicate 175 CHR ''d'',
      homes = (\<lambda>user. None), now = \<lparr>year = 2024, month = 12, day = 27\<rparr>,
      cwd = [], glob_other = (\<lambda>fs pattern. []), nt = nt_sample\<rparr>"

definition fs_empty :: filesystem where
  "fs_empty = \<lparr>dirs = [], files = []\<rparr>"

text \<open>
  A Cygwin host whose history root is \<^verbatim>\<open>/tmp/\<close>, a hundred times \<^verbatim>\<open>./\<close>, and \<^verbatim>\<open>h\<close>: a
  long name of the directory \<^verbatim>\<open>/tmp/h\<close>.
\<close>

definition env_cygwin_dots :: env where
  "env_cygwin_dots =
     \<lparr>platform = ''cygwin'',
      setting_job_history_dir = ''/tmp/'' @ concat (replicate 100 ''./'') @ ''h'',
      homes = (\<lambda>user. None), now = \<lparr>year = 2024, month = 12, day = 27\<rparr>,
      cwd = [''home'', ''user''], glob_other = (\<lambda>fs pattern. []), nt = nt_sample\<rparr>"

section \<open>Sanitization\<close>

lemma sanitize_filter: "sanitize s = filter keep_char s"
  by (induction s) simp_all

lemma keep_char_slash: "\<not> keep_char CHR ''/''"
  by (simp add: keep_char_def isalnum_def)

lemma keep_char_backslash: "\<not> keep_char (CHR 0x5C)"
  by (simp add: keep_char_def isalnum_def)

lemma keep_char_dot: "\<not> keep_char CHR ''.''"
  by (simp add: keep_char_def isalnum_def)

lemma set_sanitize: "set (sanitize s) = {c \<in> set s. keep_char c}"
  by (simp add: sanitize_filter)

lemma no_dot_no_dotdot:
  assumes "CHR ''.'' \<notin> set t"
  shows "\<nexists>u v. t = u @ ''..'' @ v"
proof
  assume "\<exists>u v. t = u @ ''..'' @ v"
  then obtain u v where "t = u @ ''..'' @ v" by blast
  then have "CHR ''.'' \<in> set t" by simp
  with assms show False by contradiction
qed

section \<open>Facts about the library functions\<close>

subsection \<open>Digits and tags\<close>

lemma digit_char_table: "map digit_char [0, 1, 2, 3, 4, 5, 6, 7, 8, 9] = ''0123456789''"
  by code_simp

lemma is_digit_table: "list_all is_digit ''0123456789''"
  by (simp add: is_digit_def)

lemma digit_char_is_digit:
  assumes "d < 10"
  shows "is_digit (digit_char d)"
proof -
  from assms have "d \<in> set [0, 1, 2, 3, 4, 5, 6, 7, 8, 9]"
    by (simp add: eval_nat_numeral less_Suc_eq)
  then have "digit_char d \<in> set (map digit_char [0, 1, 2, 3, 4, 5, 6, 7, 8, 9])"
    by (simp only: set_map image_eqI)
  then have "digit_char d \<in> set ''0123456789''" by (simp only: digit_char_table)
  with is_digit_table show ?thesis by (simp only: list_all_iff)
qed

lemma str_nat_digits: "list_all is_digit (str_nat n)"
proof (induction n rule: str_nat.induct)
  case (1 n)
  show ?case
  proof (cases "n < 10")
    case True
    with digit_char_is_digit [of n] show ?thesis by (subst str_nat.simps) simp
  next
    case False
    have "n mod 10 < 10" by simp
    from digit_char_is_digit [OF this] "1.IH" False show ?thesis
      by (subst str_nat.simps) simp
  qed
qed

lemma str_nat_nonempty: "str_nat n \<noteq> []"
  by (subst str_nat.simps) simp

lemma is_digit_zero: "is_digit CHR ''0''"
  by (simp add: is_digit_def)

lemma zfill_digits: "list_all is_digit s \<Longrightarrow> list_all is_digit (zfill w s)"
  using is_digit_zero by (auto simp: zfill_def list_all_iff)

lemma zfill_nonempty: "s \<noteq> [] \<Longrightarrow> zfill w s \<noteq> []"
  by (simp add: zfill_def)

lemma zfill_str_nat_tag: "list_all tag_char (zfill w (str_nat n))"
  using zfill_digits [OF str_nat_digits, of w n] by (simp add: list_all_iff tag_char_def)

lemma format_02_tag: "list_all tag_char (format_02 n)"
  using zfill_str_nat_tag [of 1 "nat (- n)"] zfill_str_nat_tag [of 2 "nat n"]
  by (simp add: format_02_def tag_char_def)

lemma month_tag_chars: "list_all tag_char (month_tag_of t)"
  using zfill_str_nat_tag [of 4 "year t"] zfill_str_nat_tag [of 2 "month t"]
  by (simp add: month_tag_of_def tag_char_def)

lemma date_tag_chars: "list_all tag_char (date_tag_of t)"
  using month_tag_chars [of t] zfill_str_nat_tag [of 2 "day t"]
  by (simp add: date_tag_of_def tag_char_def)

lemma month_tag_hd: "\<exists>d r. month_tag_of t = d # r \<and> is_digit d"
proof -
  obtain d r where dr: "zfill 4 (str_nat (year t)) = d # r"
    using zfill_nonempty [OF str_nat_nonempty, of 4 "year t"]
    by (cases "zfill 4 (str_nat (year t))") auto
  with zfill_digits [OF str_nat_digits, of 4 "year t"] have "is_digit d" by simp
  with dr show ?thesis by (simp add: month_tag_of_def)
qed

lemma date_tag_hd: "\<exists>d r. date_tag_of t = d # r \<and> is_digit d"
  using month_tag_hd [of t] by (auto simp: date_tag_of_def)

lemma tag_char_plain:
  assumes "tag_char c"
  shows "c \<noteq> CHR ''/''" and "c \<noteq> CHR ''.''" and "c \<notin> set ''*?[''" and "keep_char c"
  using assms by (auto simp: tag_char_def is_digit_def keep_char_def isalnum_def Let_def)

lemma keep_char_plain:
  assumes "keep_char c"
  shows "c \<noteq> CHR ''/''" and "c \<noteq> CHR ''.''"
  using assms keep_char_slash keep_char_dot by auto

subsection \<open>Joining and splitting path names\<close>


lemma posix_join_relative:
  assumes "w \<noteq> []" and "hd w \<noteq> CHR ''/''"
  shows "posix_join a w = dir_prefix a @ w"
  using assms by (simp add: posix_join_def dir_prefix_def)

lemma valid_name_hd: "valid_name w \<Longrightarrow> w \<noteq> [] \<and> hd w \<noteq> CHR ''/''"
  by (cases w) (auto simp: valid_name_def)

lemma posix_join_valid: "valid_name w \<Longrightarrow> posix_join a w = dir_prefix a @ w"
  using posix_join_relative valid_name_hd by blast

lemma dir_prefix_ends: "dir_prefix a = [] \<or> last (dir_prefix a) = CHR ''/''"
  by (simp add: dir_prefix_def)

lemma rev_dir_part:
  assumes "y = [] \<or> last y = CHR ''/''"
  shows "takeWhile (\<lambda>c. c \<noteq> CHR ''/'') (rev y) = []"
    and "dropWhile (\<lambda>c. c \<noteq> CHR ''/'') (rev y) = rev y"
proof -
  show "takeWhile (\<lambda>c. c \<noteq> CHR ''/'') (rev y) = []"
  proof (cases y rule: rev_cases)
    case Nil
    then show ?thesis by simp
  next
    case (snoc ys c)
    with assms show ?thesis by simp
  qed
  then show "dropWhile (\<lambda>c. c \<noteq> CHR ''/'') (rev y) = rev y"
    by (metis append_Nil takeWhile_dropWhile_id)
qed

lemma takeWhile_rev_tail:
  assumes "CHR ''/'' \<notin> set w" and "y = [] \<or> last y = CHR ''/''"
  shows "takeWhile (\<lambda>c. c \<noteq> CHR ''/'') (rev (y @ w)) = rev w"
proof -
  have "takeWhile (\<lambda>c. c \<noteq> CHR ''/'') (rev w @ rev y)
        = rev w @ takeWhile (\<lambda>c. c \<noteq> CHR ''/'') (rev y)"
    by (rule takeWhile_append2) (use assms(1) in auto)
  with rev_dir_part(1) [OF assms(2)] show ?thesis by simp
qed

lemma dropWhile_rev_tail:
  assumes "CHR ''/'' \<notin> set w" and "y = [] \<or> last y = CHR ''/''"
  shows "dropWhile (\<lambda>c. c \<noteq> CHR ''/'') (rev (y @ w)) = rev y"
proof -
  have "dropWhile (\<lambda>c. c \<noteq> CHR ''/'') (rev w @ rev y)
        = dropWhile (\<lambda>c. c \<noteq> CHR ''/'') (rev y)"
    by (rule dropWhile_append2) (use assms(1) in auto)
  with rev_dir_part(2) [OF assms(2)] show ?thesis by simp
qed

lemma posix_basename_tail:
  assumes "CHR ''/'' \<notin> set w" and "y = [] \<or> last y = CHR ''/''"
  shows "posix_basename (y @ w) = w"
  using takeWhile_rev_tail [OF assms] by (simp add: posix_basename_def)

lemma posix_split_tail:
  assumes "CHR ''/'' \<notin> set w" and "y = [] \<or> last y = CHR ''/''"
  shows "posix_split (y @ w) =
           (if y \<noteq> [] \<and> \<not> list_all (\<lambda>c. c = CHR ''/'') y then rstrip_slash y else y, w)"
  using takeWhile_rev_tail [OF assms] dropWhile_rev_tail [OF assms]
  by (simp add: posix_split_def)

lemma rstrip_slash_dir_prefix:
  assumes "a \<noteq> []" and "last a \<noteq> CHR ''/''"
  shows "rstrip_slash (dir_prefix a) = a"
proof -
  from assms have "dropWhile (\<lambda>c. c = CHR ''/'') (rev a) = rev a"
    by (cases "rev a") (auto simp: hd_rev [symmetric])
  with assms show ?thesis by (simp add: rstrip_slash_def dir_prefix_def)
qed

lemma dir_prefix_not_slashes:
  assumes "a \<noteq> []" and "last a \<noteq> CHR ''/''"
  shows "\<not> list_all (\<lambda>c. c = CHR ''/'') (dir_prefix a)"
proof -
  from assms have "last a \<in> set (dir_prefix a)" by (simp add: dir_prefix_def)
  with assms(2) show ?thesis by (auto simp: list_all_iff)
qed

lemma posix_split_join:
  assumes "valid_name w" and "a \<noteq> []" and "last a \<noteq> CHR ''/''"
  shows "posix_split (posix_join a w) = (a, w)"
proof -
  from assms(1) have w: "CHR ''/'' \<notin> set w" by (simp add: valid_name_def)
  from assms(2) have ne: "dir_prefix a \<noteq> []" by (simp add: dir_prefix_def)
  have "posix_split (dir_prefix a @ w) = (rstrip_slash (dir_prefix a), w)"
    using posix_split_tail [OF w dir_prefix_ends, of a] ne dir_prefix_not_slashes [OF assms(2,3)]
    by simp
  then show ?thesis
    by (simp add: posix_join_valid [OF assms(1)] rstrip_slash_dir_prefix [OF assms(2,3)])
qed

lemma posix_join_nonempty: "valid_name w \<Longrightarrow> posix_join a w \<noteq> []"
  by (simp add: posix_join_valid valid_name_def)

lemma posix_join_last: "valid_name w \<Longrightarrow> last (posix_join a w) = last w"
  by (simp add: posix_join_valid valid_name_def)

lemma valid_name_last: "valid_name w \<Longrightarrow> last w \<noteq> CHR ''/''"
  by (metis last_in_set valid_name_def)

lemma posix_join_last_no_slash: "valid_name w \<Longrightarrow> last (posix_join a w) \<noteq> CHR ''/''"
  by (simp add: posix_join_last valid_name_last)

lemma posix_basename_join: "valid_name w \<Longrightarrow> posix_basename (posix_join a w) = w"
  using posix_basename_tail [OF _ dir_prefix_ends] by (simp add: posix_join_valid valid_name_def)

subsection \<open>The components of a path name\<close>

lemma split_slash_nonempty: "split_slash s \<noteq> []"
  by (induction s) (auto split: list.splits)

lemma split_slash_plain: "CHR ''/'' \<notin> set w \<Longrightarrow> split_slash w = [w]"
  by (induction w) auto

lemma split_slash_append: "split_slash (a @ CHR ''/'' # b) = split_slash a @ split_slash b"
proof (induction a)
  case Nil
  show ?case by simp
next
  case (Cons c a)
  obtain x xs where "split_slash a = x # xs"
    using split_slash_nonempty [of a] by (cases "split_slash a") auto
  with Cons show ?case by simp
qed

lemma split_slash_snoc_slash: "split_slash (a @ ''/'') = split_slash a @ [[]]"
  using split_slash_append [of a "[]"] by simp

lemma split_slash_tail:
  assumes "CHR ''/'' \<notin> set w" and "y = [] \<or> last y = CHR ''/''"
  shows "split_slash (y @ w) = butlast (split_slash y) @ [w]"
proof (cases y rule: rev_cases)
  case Nil
  with assms(1) show ?thesis by (simp add: split_slash_plain)
next
  case (snoc y' c)
  with assms(2) have c: "c = CHR ''/''" by simp
  have "split_slash (y' @ CHR ''/'' # w) = split_slash y' @ [w]"
    by (simp add: split_slash_append split_slash_plain [OF assms(1)])
  moreover have "split_slash (y' @ ''/'') = split_slash y' @ [[]]"
    by (rule split_slash_snoc_slash)
  ultimately show ?thesis using snoc c by simp
qed

lemma split_slash_join:
  assumes "valid_name w"
  shows "split_slash (posix_join a w) = dir_comps a @ [w]"
  using assms split_slash_tail [OF _ dir_prefix_ends, of w a]
  by (simp add: posix_join_valid dir_comps_def valid_name_def)

lemma dir_comps_cases:
  "dir_comps a = (if a = [] then [] else if last a = CHR ''/'' then butlast (split_slash a)
                  else split_slash a)"
  by (simp add: dir_comps_def dir_prefix_def split_slash_snoc_slash)

subsection \<open>Walking and looking up\<close>

lemma walk_append:
  "walk fs cur (xs @ ys) = (case walk fs cur xs of Inl e \<Rightarrow> Inl e | Inr n \<Rightarrow> walk fs n ys)"
  by (induction xs arbitrary: cur) simp_all

lemma walk_errors:
  "walk fs cur cs = Inl e \<Longrightarrow> e = NotADirectoryError \<or> e = FileNotFoundError"
  by (induction cs arbitrary: cur) (auto split: if_splits)

lemma is_dir_mono: "set (dirs fs) \<subseteq> set (dirs fs') \<Longrightarrow> is_dir fs n \<Longrightarrow> is_dir fs' n"
  by (auto simp: is_dir_def)

lemma walk_mono:
  assumes "set (dirs fs) \<subseteq> set (dirs fs')" and "walk fs cur cs = Inr n"
  shows "walk fs' cur cs = Inr n"
  using assms(2)
proof (induction cs arbitrary: cur)
  case Nil
  then show ?case by simp
next
  case (Cons c cs)
  from Cons.prems have d: "is_dir fs cur" by (auto split: if_splits)
  with Cons.prems have "walk fs (step cur c) cs = Inr n" by simp
  then have "walk fs' (step cur c) cs = Inr n" by (rule Cons.IH)
  with is_dir_mono [OF assms(1) d] show ?case by simp
qed

lemma step_valid: "valid_name w \<Longrightarrow> step cur w = cur @ [w]"
  by (simp add: step_def valid_name_def)

lemma start_node_join: "a \<noteq> [] \<Longrightarrow> valid_name w \<Longrightarrow> start_node wd (posix_join a w) = start_node wd a"
  by (cases a) (simp_all add: start_node_def posix_join_valid dir_prefix_def)

lemma start_node_join_empty: "valid_name w \<Longrightarrow> start_node wd (posix_join [] w) = wd"
  by (cases w) (auto simp: start_node_def posix_join_valid dir_prefix_def valid_name_def)

lemma lookup_dir_comps:
  assumes "lookup fs wd a = Inr n" and "is_dir fs n"
  shows "walk fs (start_node wd a) (dir_comps a) = Inr n"
proof -
  from assms(1) have ne: "a \<noteq> []" by (auto simp: lookup_def)
  from assms(1) ne have w: "walk fs (start_node wd a) (split_slash a) = Inr n"
    by (auto simp: lookup_def split: sum.splits if_splits)
  show ?thesis
  proof (cases "last a = CHR ''/''")
    case False
    with ne w show ?thesis by (simp add: dir_comps_cases)
  next
    case True
    with ne obtain a' where a: "a = a' @ ''/''"
      by (cases a rule: rev_cases) auto
    from w obtain m where m: "walk fs (start_node wd a) (split_slash a') = Inr m"
      and m2: "walk fs m [[]] = Inr n"
      by (auto simp: a split_slash_snoc_slash walk_append split: sum.splits)
    from m2 have "m = n" by (auto simp: step_def split: if_splits)
    with m show ?thesis using ne True by (simp add: dir_comps_cases a split_slash_snoc_slash)
  qed
qed

subsection \<open>\<^verbatim>\<open>os.mkdir\<close>\<close>

lemma rstrip_empty_snoc: "w \<noteq> [] \<Longrightarrow> rstrip_empty (cs @ [w]) = cs @ [w]"
  by (simp add: rstrip_empty_def)

lemma os_mkdir_result:
  assumes "os_mkdir fs wd p = (r, fs')"
  shows "(\<exists>e. r = Inl e \<and> fs' = fs
            \<and> (e = FileExistsError \<or> e = FileNotFoundError \<or> e = NotADirectoryError))
         \<or> (r = Inr () \<and> (\<exists>node. fs' = fs\<lparr>dirs := dirs fs @ [node]\<rparr> \<and> \<not> node_exists fs node))"
proof (cases "walk fs (start_node wd p) (butlast (rstrip_empty (split_slash p)))")
  case (Inl e)
  with walk_errors [OF Inl] assms show ?thesis
    by (auto simp: os_mkdir_def Let_def split: if_splits)
next
  case (Inr parent)
  with assms show ?thesis
    by (auto simp: os_mkdir_def Let_def split: if_splits)
qed

lemma os_mkdir_join:
  assumes "valid_name w"
  shows "os_mkdir fs wd (posix_join a w) =
     (case walk fs (start_node wd (posix_join a w)) (dir_comps a) of
        Inl e \<Rightarrow> (Inl e, fs)
      | Inr parent \<Rightarrow>
          if \<not> is_dir fs parent
            then (Inl (if parent \<in> set (files fs) then NotADirectoryError
                       else FileNotFoundError), fs)
          else if node_exists fs (parent @ [w]) then (Inl FileExistsError, fs)
          else (Inr (), fs\<lparr>dirs := dirs fs @ [parent @ [w]]\<rparr>))"
proof -
  from assms have w: "w \<noteq> []" "w \<noteq> ''.''" "w \<noteq> ''..''" by (simp_all add: valid_name_def)
  have comps: "rstrip_empty (split_slash (posix_join a w)) = dir_comps a @ [w]"
    by (simp add: split_slash_join [OF assms] rstrip_empty_snoc [OF w(1)])
  show ?thesis
    unfolding os_mkdir_def comps using w posix_join_nonempty [OF assms, of a]
    by (simp add: Let_def split: sum.splits)
qed

lemma lookup_join_walk:
  assumes "valid_name w"
    and "walk fs (start_node wd (posix_join a w)) (dir_comps a) = Inr parent"
    and "is_dir fs parent"
  shows "lookup fs wd (posix_join a w) =
           (if node_exists fs (parent @ [w]) then Inr (parent @ [w]) else Inl FileNotFoundError)"
  using assms posix_join_nonempty [OF assms(1), of a]
  by (simp add: lookup_def split_slash_join walk_append step_valid)

lemma os_mkdir_join_success:
  assumes "valid_name w" and "os_mkdir fs wd (posix_join a w) = (Inr u, fs')"
  shows "\<exists>parent. fs' = fs\<lparr>dirs := dirs fs @ [parent @ [w]]\<rparr>
           \<and> \<not> node_exists fs (parent @ [w]) \<and> is_dir fs parent
           \<and> lookup fs' wd (posix_join a w) = Inr (parent @ [w])"
proof -
  from assms(2) obtain parent
    where walk: "walk fs (start_node wd (posix_join a w)) (dir_comps a) = Inr parent"
      and dir: "is_dir fs parent"
      and new: "\<not> node_exists fs (parent @ [w])"
      and fs': "fs' = fs\<lparr>dirs := dirs fs @ [parent @ [w]]\<rparr>"
    unfolding os_mkdir_join [OF assms(1)] by (auto split: sum.splits if_splits)
  have sub: "set (dirs fs) \<subseteq> set (dirs fs')" by (auto simp: fs')
  have "lookup fs' wd (posix_join a w) = Inr (parent @ [w])"
    using lookup_join_walk [OF assms(1) walk_mono [OF sub walk] is_dir_mono [OF sub dir]]
    by (simp add: fs' node_exists_def is_dir_def)
  with dir new fs' show ?thesis by blast
qed

lemma os_mkdir_in_dir:
  assumes "valid_name w" and "lookup fs wd a = Inr n" and "is_dir fs n"
  shows "os_mkdir fs wd (posix_join a w) =
           (if node_exists fs (n @ [w]) then (Inl FileExistsError, fs)
            else (Inr (), fs\<lparr>dirs := dirs fs @ [n @ [w]]\<rparr>))"
proof -
  from assms(2) have "a \<noteq> []" by (auto simp: lookup_def)
  then have "start_node wd (posix_join a w) = start_node wd a"
    using assms(1) by (rule start_node_join)
  with lookup_dir_comps [OF assms(2,3)] assms(3) show ?thesis
    by (simp add: os_mkdir_join [OF assms(1)])
qed

subsection \<open>\<^verbatim>\<open>os.makedirs\<close>\<close>

lemma makedirs_frame:
  "makedirs fs wd p = (r, fs') \<Longrightarrow> files fs' = files fs \<and> (\<exists>new. dirs fs' = dirs fs @ new)"
proof (induction fs wd p arbitrary: r fs' rule: makedirs.induct)
  case (1 fs wd name)
  let ?head = "fst (makedirs_parts name)"
  let ?tail = "snd (makedirs_parts name)"
  have mk: "\<And>fs1 r1 fs2. os_mkdir fs1 wd name = (r1, fs2)
              \<Longrightarrow> files fs2 = files fs1 \<and> (\<exists>new. dirs fs2 = dirs fs1 @ new)"
    using os_mkdir_result by fastforce
  show ?case
  proof (cases "?head \<noteq> [] \<and> ?tail \<noteq> [] \<and> \<not> posix_exists fs wd ?head")
    case False
    with "1.prems" have "os_mkdir fs wd name = (r, fs')"
      by (subst (asm) makedirs.simps) auto
    then show ?thesis by (rule mk)
  next
    case True
    obtain r1 fs1 where rec: "makedirs fs wd ?head = (r1, fs1)" by (cases "makedirs fs wd ?head")
    from "1.IH" [OF True rec] obtain new1
      where f1: "files fs1 = files fs" and d1: "dirs fs1 = dirs fs @ new1" by blast
    from "1.prems" True rec
    have "(r, fs') = (r1, fs1) \<or> (r, fs') = (Inr (), fs1) \<or> os_mkdir fs1 wd name = (r, fs')"
      by (subst (asm) makedirs.simps) (auto split: sum.splits if_splits)
    then show ?thesis
    proof (elim disjE)
      assume "os_mkdir fs1 wd name = (r, fs')"
      from mk [OF this] f1 d1 show ?thesis by auto
    qed (use f1 d1 in auto)
  qed
qed

lemma makedirs_errors:
  "makedirs fs wd p = (Inl e, fs')
   \<Longrightarrow> e = FileExistsError \<or> e = FileNotFoundError \<or> e = NotADirectoryError"
proof (induction fs wd p arbitrary: e fs' rule: makedirs.induct)
  case (1 fs wd name)
  let ?head = "fst (makedirs_parts name)"
  let ?tail = "snd (makedirs_parts name)"
  have mk: "\<And>fs1 fs2. os_mkdir fs1 wd name = (Inl e, fs2)
              \<Longrightarrow> e = FileExistsError \<or> e = FileNotFoundError \<or> e = NotADirectoryError"
    using os_mkdir_result by fastforce
  show ?case
  proof (cases "?head \<noteq> [] \<and> ?tail \<noteq> [] \<and> \<not> posix_exists fs wd ?head")
    case False
    with "1.prems" have "os_mkdir fs wd name = (Inl e, fs')"
      by (subst (asm) makedirs.simps) auto
    then show ?thesis by (rule mk)
  next
    case True
    obtain r1 fs1 where rec: "makedirs fs wd ?head = (r1, fs1)" by (cases "makedirs fs wd ?head")
    from "1.prems" True rec
    have "(r1 = Inl e \<and> fs' = fs1) \<or> os_mkdir fs1 wd name = (Inl e, fs')"
      by (subst (asm) makedirs.simps) (auto split: sum.splits if_splits)
    then show ?thesis
    proof
      assume "r1 = Inl e \<and> fs' = fs1"
      with rec "1.IH" [OF True] show ?thesis by blast
    next
      assume "os_mkdir fs1 wd name = (Inl e, fs')"
      then show ?thesis by (rule mk)
    qed
  qed
qed

lemma makedirs_existing_head:
  assumes "fst (makedirs_parts p) = [] \<or> posix_exists fs wd (fst (makedirs_parts p))"
  shows "makedirs fs wd p = os_mkdir fs wd p"
  using assms by (subst makedirs.simps) auto

lemma makedirs_parts_tail:
  assumes "valid_name w"
  shows "snd (makedirs_parts (posix_join a w)) = w"
proof -
  from assms have "CHR ''/'' \<notin> set w" and "w \<noteq> []" by (simp_all add: valid_name_def)
  with posix_split_tail [OF _ dir_prefix_ends, of w a] show ?thesis
    by (simp add: makedirs_parts_def posix_join_valid [OF assms])
qed

lemma makedirs_parts_join:
  assumes "valid_name w" and "a \<noteq> []" and "last a \<noteq> CHR ''/''"
  shows "makedirs_parts (posix_join a w) = (a, w)"
  using assms posix_split_join [OF assms] by (simp add: makedirs_parts_def valid_name_def)

lemma makedirs_join_success:
  assumes "valid_name w" and "makedirs fs wd (posix_join a w) = (Inr u, fs')"
  shows "\<exists>fs1. os_mkdir fs1 wd (posix_join a w) = (Inr u, fs')
           \<and> files fs1 = files fs \<and> (\<exists>new. dirs fs1 = dirs fs @ new)"
proof -
  let ?p = "posix_join a w"
  let ?head = "fst (makedirs_parts ?p)"
  from assms(1) have tail: "snd (makedirs_parts ?p) \<noteq> ''.''" "snd (makedirs_parts ?p) \<noteq> []"
    by (simp_all add: makedirs_parts_tail valid_name_def)
  show ?thesis
  proof (cases "?head \<noteq> [] \<and> \<not> posix_exists fs wd ?head")
    case False
    then have "makedirs fs wd ?p = os_mkdir fs wd ?p"
      by (intro makedirs_existing_head) auto
    with assms(2) show ?thesis by auto
  next
    case True
    obtain r1 fs1 where rec: "makedirs fs wd ?head = (r1, fs1)" by (cases "makedirs fs wd ?head")
    from assms(2) True tail rec have "os_mkdir fs1 wd ?p = (Inr u, fs')"
      by (subst (asm) makedirs.simps) (auto split: sum.splits if_splits)
    with makedirs_frame [OF rec] show ?thesis by blast
  qed
qed

subsection \<open>The names the function builds\<close>

lemma is_digit_not_special:
  assumes "is_digit d"
  shows "d \<noteq> CHR ''/''" and "d \<noteq> CHR ''.''"
  using assms by (auto simp: is_digit_def)

lemma valid_nameI:
  assumes "w = d # r" and "is_digit d" and "CHR ''/'' \<notin> set w"
  shows "valid_name w"
  using assms is_digit_not_special [OF assms(2)] by (auto simp: valid_name_def)

lemma tag_no_slash: "list_all tag_char s \<Longrightarrow> CHR ''/'' \<notin> set s"
  using tag_char_plain(1) by (auto simp: list_all_iff)

lemma sanitize_no_slash: "CHR ''/'' \<notin> set (sanitize s)"
  using keep_char_slash by (simp add: set_sanitize)

lemma slice_to_subset: "set (slice_to k s) \<subseteq> set s"
  by (auto simp: slice_to_def dest: in_set_takeD)

lemma month_tag_valid: "valid_name (month_tag_of t)"
proof -
  obtain d r where "month_tag_of t = d # r" and "is_digit d"
    using month_tag_hd by blast
  then show ?thesis
    using tag_no_slash [OF month_tag_chars, of t] by (rule valid_nameI)
qed

lemma job_dir_prefix_no_slash:
  "CHR ''/'' \<notin> set (job_dir_prefix_of (date_tag_of t) n (sanitize s))"
  using tag_no_slash [OF date_tag_chars, of t] tag_no_slash [OF format_02_tag, of n]
    sanitize_no_slash [of s]
  by (simp add: job_dir_prefix_of_def)

lemma job_dir_prefix_hd:
  "\<exists>d r. job_dir_prefix_of (date_tag_of t) n c = d # r \<and> is_digit d"
  using date_tag_hd [of t] by (auto simp: job_dir_prefix_of_def)

lemma bundle_name_valid:
  assumes "CHR ''/'' \<notin> set j"
  shows "valid_name (job_dir_prefix_of (date_tag_of t) n (sanitize s) @ j)"
proof -
  obtain d r where "job_dir_prefix_of (date_tag_of t) n (sanitize s) = d # r" and d: "is_digit d"
    using job_dir_prefix_hd by blast
  then have "job_dir_prefix_of (date_tag_of t) n (sanitize s) @ j = d # (r @ j)" by simp
  then show ?thesis using d
  proof (rule valid_nameI)
    show "CHR ''/'' \<notin> set (job_dir_prefix_of (date_tag_of t) n (sanitize s) @ j)"
      using assms job_dir_prefix_no_slash [of t n s] by simp
  qed
qed

lemma slice_sanitize_no_slash: "CHR ''/'' \<notin> set (slice_to k (sanitize j))"
  using slice_to_subset [of k "sanitize j"] sanitize_no_slash [of j] by blast

subsection \<open>The library functions off native Windows\<close>

lemma posix_platform:
  assumes "platform e \<noteq> ''win32''"
  shows "os_path_expanduser e p = expanduser (homes e) p"
    and "os_path_join e a b = posix_join a b"
    and "os_path_abspath e p = posix_abspath e p"
    and "os_path_basename e p = posix_basename p"
    and "os_path_isdir e fs p = posix_isdir fs (cwd e) p"
    and "os_makedirs e fs p = makedirs fs (cwd e) p"
    and "glob_glob e fs p = posix_glob (glob_other e) fs (cwd e) p"
  using assms
  by (simp_all add: os_path_expanduser_def os_path_join_def os_path_abspath_def
      os_path_basename_def os_path_isdir_def os_makedirs_def glob_glob_def)

lemma not_short_path_posix: "\<not> short_path_platform (platform e) \<Longrightarrow> platform e \<noteq> ''win32''"
  by (auto simp: short_path_platform_def)

lemma posix_month_dir:
  "platform e \<noteq> ''win32''
   \<Longrightarrow> month_dir_of e = posix_join (job_history_dir_of e) (month_tag_of (now e))"
  by (simp add: month_dir_of_def posix_platform)

lemma month_dir_shape:
  "platform e \<noteq> ''win32'' \<Longrightarrow> month_dir_of e \<noteq> [] \<and> last (month_dir_of e) \<noteq> CHR ''/''"
  by (simp add: posix_month_dir posix_join_nonempty posix_join_last_no_slash month_tag_valid)

subsection \<open>\<^verbatim>\<open>normpath\<close> and \<^verbatim>\<open>posix_abspath\<close> of a path name with a longer last component\<close>

lemma norm_comps_append:
  "norm_comps i acc (xs @ ys) = norm_comps i (norm_comps i acc xs) ys"
  by (induction xs arbitrary: acc) simp_all

lemma join_slash_snoc: "w \<noteq> [] \<Longrightarrow> join_slash (acc @ [w @ j]) = join_slash (acc @ [w]) @ j"
  by (induction acc rule: join_slash.induct) simp_all

lemma join_slash_snoc_nonempty: "w \<noteq> [] \<Longrightarrow> join_slash (acc @ [w]) \<noteq> []"
  by (induction acc rule: join_slash.induct) simp_all

lemma initial_slashes_tail:
  assumes "d \<noteq> CHR ''/''"
  shows "initial_slashes (z @ d # r1) = initial_slashes (z @ d # r2)"
proof (cases z)
  case Nil
  with assms show ?thesis by (simp add: initial_slashes_def)
next
  case z1: (Cons a z')
  show ?thesis
  proof (cases z')
    case Nil
    with z1 assms show ?thesis by (simp add: initial_slashes_def)
  next
    case z2: (Cons b z'')
    show ?thesis
    proof (cases z'')
      case Nil
      with z1 z2 assms show ?thesis by (simp add: initial_slashes_def)
    next
      case (Cons c z''')
      with z1 z2 show ?thesis by (simp add: initial_slashes_def)
    qed
  qed
qed

lemma normpath_tail:
  assumes z: "z = [] \<or> last z = CHR ''/''"
    and w: "w = d # r" "is_digit d" "CHR ''/'' \<notin> set w"
    and j: "CHR ''/'' \<notin> set j"
  shows "normpath (z @ w @ j) = normpath (z @ w) @ j"
proof -
  let ?i = "initial_slashes (z @ w)"
  let ?acc = "norm_comps ?i [] (butlast (split_slash z))"
  from w(1,2) is_digit_not_special [OF w(2)] have d: "d \<noteq> CHR ''/''" by simp
  have i: "initial_slashes (z @ w @ j) = ?i"
    using initial_slashes_tail [OF d, of z "r @ j" r] by (simp add: w(1))
  have plain: "\<And>v. v = d # r \<or> v = d # r @ j \<Longrightarrow> v \<noteq> [] \<and> v \<noteq> ''.'' \<and> v \<noteq> ''..''"
    using is_digit_not_special [OF w(2)] by auto
  have comps: "\<And>v. CHR ''/'' \<notin> set v \<Longrightarrow> v = d # r \<or> v = d # r @ j
                 \<Longrightarrow> norm_comps ?i [] (split_slash (z @ v)) = ?acc @ [v]"
    using plain by (simp add: split_slash_tail [OF _ z] norm_comps_append)
  have c1: "norm_comps ?i [] (split_slash (z @ w)) = ?acc @ [w]"
    using comps [of w] w by simp
  have c2: "norm_comps ?i [] (split_slash (z @ w @ j)) = ?acc @ [w @ j]"
    using comps [of "w @ j"] w j by simp
  have ne: "w \<noteq> []" using w(1) by simp
  show ?thesis
    by (simp add: normpath_def i c1 c2 Let_def ne join_slash_snoc join_slash_snoc_nonempty)
qed

lemma posix_abspath_tail:
  assumes w: "w = d # r" "is_digit d" "CHR ''/'' \<notin> set w"
    and j: "CHR ''/'' \<notin> set j"
  shows "posix_abspath e (posix_join a (w @ j)) = posix_abspath e (posix_join a w) @ j"
proof -
  have vw: "valid_name w" using w by (rule valid_nameI)
  have "w @ j = d # (r @ j)" using w(1) by simp
  then have vwj: "valid_name (w @ j)" using w(2)
    by (rule valid_nameI) (use w(3) j in simp)
  have j1: "posix_join a w = dir_prefix a @ w" by (rule posix_join_valid [OF vw])
  have j2: "posix_join a (w @ j) = dir_prefix a @ w @ j" by (rule posix_join_valid [OF vwj])
  have d: "d \<noteq> CHR ''/''" using is_digit_not_special [OF w(2)] by simp
  have abs: "isabs (dir_prefix a @ w @ j) = isabs (dir_prefix a @ w)"
    by (cases "dir_prefix a") (simp_all add: isabs_def w(1))
  show ?thesis
  proof (cases "isabs (dir_prefix a @ w)")
    case True
    with abs show ?thesis
      by (simp add: posix_abspath_def j1 j2 normpath_tail [OF dir_prefix_ends w j])
  next
    case False
    have rel: "\<And>v. v = w \<or> v = w @ j \<Longrightarrow>
                 posix_join (getcwd e) (dir_prefix a @ v) = (dir_prefix (getcwd e) @ dir_prefix a) @ v"
    proof -
      fix v assume v: "v = w \<or> v = w @ j"
      from False abs v have "\<not> isabs (dir_prefix a @ v)" by auto
      moreover from v w(1) have "dir_prefix a @ v \<noteq> []" by auto
      ultimately have "hd (dir_prefix a @ v) \<noteq> CHR ''/''"
        by (cases "dir_prefix a @ v") (simp_all add: isabs_def)
      with \<open>dir_prefix a @ v \<noteq> []\<close> show "posix_join (getcwd e) (dir_prefix a @ v)
          = (dir_prefix (getcwd e) @ dir_prefix a) @ v"
        by (simp add: posix_join_relative)
    qed
    have z: "dir_prefix (getcwd e) @ dir_prefix a = []
             \<or> last (dir_prefix (getcwd e) @ dir_prefix a) = CHR ''/''"
    proof (cases "dir_prefix a = []")
      case True
      then show ?thesis using dir_prefix_ends [of "getcwd e"] by simp
    next
      case False
      then show ?thesis using dir_prefix_ends [of a] by simp
    qed
    from False abs show ?thesis
      using normpath_tail [OF z w j]
      by (simp add: posix_abspath_def j1 j2 rel [of w] rel [of "w @ j", simplified])
  qed
qed

section \<open>The stages of \<^verbatim>\<open>create_job_history_bundle_dir\<close>\<close>

lemma py_int_errors: "py_int s = Inl err \<Longrightarrow> err = ValueError"
  by (simp add: py_int_def Let_def split: if_splits)

lemma next_number_errors: "next_number e d ds = Inl err \<Longrightarrow> err = ValueError"
  by (auto simp: next_number_def split: if_splits sum.splits dest: py_int_errors)

lemma max_job_name_prefix_errors:
  "max_job_name_prefix_of e p = Inl err
   \<Longrightarrow> err = RuntimeError \<and> short_path_platform (platform e) \<and> path_budget e p < 1"
  by (simp add: max_job_name_prefix_of_def split: if_splits)

lemma max_job_name_prefix_value:
  "max_job_name_prefix_of e p = Inr k
   \<Longrightarrow> k = (if short_path_platform (platform e) then path_budget e p else 128) \<and> 1 \<le> k"
  by (auto simp: max_job_name_prefix_of_def split: if_splits)

lemma os_makedirs_errors:
  "os_makedirs e fs p = (Inl err, fs')
   \<Longrightarrow> err = FileExistsError \<or> err = FileNotFoundError \<or> err = NotADirectoryError
       \<or> err = OSError"
  by (auto simp: os_makedirs_def split: if_splits prod.splits bool.splits dest: makedirs_errors)

lemma ensure_month_dir_errors:
  "ensure_month_dir e fs = (Inl err, fs1)
   \<Longrightarrow> err = FileExistsError \<or> err = FileNotFoundError \<or> err = NotADirectoryError
       \<or> err = OSError"
  by (auto simp: ensure_month_dir_def split: if_splits dest: os_makedirs_errors)

lemma ensure_month_dir_frame:
  "platform e \<noteq> ''win32'' \<Longrightarrow> ensure_month_dir e fs = (r, fs1)
   \<Longrightarrow> files fs1 = files fs \<and> (\<exists>new. dirs fs1 = dirs fs @ new)"
  by (auto simp: ensure_month_dir_def posix_platform split: if_splits dest: makedirs_frame)

lemma makedirs_join_isdir:
  assumes "valid_name w" and "makedirs fs wd (posix_join a w) = (Inr u, fs')"
  shows "posix_isdir fs' wd (posix_join a w)"
proof -
  from makedirs_join_success [OF assms] obtain fs1
    where "os_mkdir fs1 wd (posix_join a w) = (Inr u, fs')" by blast
  from os_mkdir_join_success [OF assms(1) this] obtain parent
    where "fs' = fs1\<lparr>dirs := dirs fs1 @ [parent @ [w]]\<rparr>"
      and "lookup fs' wd (posix_join a w) = Inr (parent @ [w])" by blast
  then show ?thesis by (simp add: posix_isdir_def is_dir_def)
qed

lemma ensure_month_dir_isdir:
  assumes px: "platform e \<noteq> ''win32''" and "ensure_month_dir e fs = (Inr u, fs1)"
  shows "posix_isdir fs1 (cwd e) (month_dir_of e)"
proof (cases "posix_isdir fs (cwd e) (month_dir_of e)")
  case True
  with assms show ?thesis by (simp add: ensure_month_dir_def posix_platform)
next
  case False
  with assms have "makedirs fs (cwd e) (posix_join (job_history_dir_of e) (month_tag_of (now e)))
                   = (Inr u, fs1)"
    by (simp add: ensure_month_dir_def posix_platform posix_month_dir)
  from makedirs_join_isdir [OF month_tag_valid this] show ?thesis
    by (simp add: posix_month_dir [OF px])
qed

lemma create_reaches:
  assumes "ensure_month_dir e fs = (Inr u, fs1)"
    and "next_number e (date_tag_of (now e)) (existing_dirs_of e fs1) = Inr n"
  shows "create_job_history_bundle_dir e fs s j =
     (case max_job_name_prefix_of e (job_dir_prefix_of (date_tag_of (now e)) n (sanitize s)) of
        Inl err \<Rightarrow> (Inl err, fs1)
      | Inr k \<Rightarrow>
          (case os_makedirs e fs1
                  (os_path_join e (month_dir_of e)
                     (job_dir_prefix_of (date_tag_of (now e)) n (sanitize s)
                      @ slice_to k (sanitize j))) of
             (Inl err, fs2) \<Rightarrow> (Inl err, fs2)
           | (Inr u2, fs2) \<Rightarrow>
               (Inr (os_path_join e (month_dir_of e)
                       (job_dir_prefix_of (date_tag_of (now e)) n (sanitize s)
                        @ slice_to k (sanitize j))), fs2)))"
  using assms by (simp add: create_job_history_bundle_dir_def Let_def split: sum.splits)

lemma create_stage_failures:
  shows "ensure_month_dir e fs = (Inl err, fs1)
         \<Longrightarrow> create_job_history_bundle_dir e fs s j = (Inl err, fs1)"
    and "ensure_month_dir e fs = (Inr u, fs1)
         \<Longrightarrow> next_number e (date_tag_of (now e)) (existing_dirs_of e fs1) = Inl err
         \<Longrightarrow> create_job_history_bundle_dir e fs s j = (Inl err, fs1)"
  by (simp_all add: create_job_history_bundle_dir_def Let_def)

lemma create_success:
  assumes "create_job_history_bundle_dir e fs s j = (Inr p, fs')"
  shows "\<exists>u fs1 n k u2.
           ensure_month_dir e fs = (Inr u, fs1)
           \<and> next_number e (date_tag_of (now e)) (existing_dirs_of e fs1) = Inr n
           \<and> max_job_name_prefix_of e (job_dir_prefix_of (date_tag_of (now e)) n (sanitize s)) = Inr k
           \<and> p = os_path_join e (month_dir_of e)
                    (job_dir_prefix_of (date_tag_of (now e)) n (sanitize s) @ slice_to k (sanitize j))
           \<and> os_makedirs e fs1 p = (Inr u2, fs')"
proof -
  obtain r1 fs1 where st1: "ensure_month_dir e fs = (r1, fs1)" by (cases "ensure_month_dir e fs")
  with assms create_stage_failures(1) [of e fs _ fs1 s j] obtain u where r1: "r1 = Inr u"
    by (cases r1) auto
  obtain n where st2: "next_number e (date_tag_of (now e)) (existing_dirs_of e fs1) = Inr n"
    using assms create_stage_failures(2) [of e fs u fs1 _ s j] st1 r1
    by (cases "next_number e (date_tag_of (now e)) (existing_dirs_of e fs1)") auto
  from assms show ?thesis
    unfolding create_reaches [OF st1 [unfolded r1] st2] using st1 r1 st2
    by (auto split: sum.splits prod.splits)
qed

lemma create_runtime_error:
  "fst (create_job_history_bundle_dir e fs s j) = Inl RuntimeError \<longleftrightarrow>
     (\<exists>u fs1 n. ensure_month_dir e fs = (Inr u, fs1)
        \<and> next_number e (date_tag_of (now e)) (existing_dirs_of e fs1) = Inr n
        \<and> short_path_platform (platform e)
        \<and> path_budget e (job_dir_prefix_of (date_tag_of (now e)) n (sanitize s)) < 1)"
  (is "?lhs \<longleftrightarrow> ?rhs")
proof
  assume ?rhs
  then obtain u fs1 n where st: "ensure_month_dir e fs = (Inr u, fs1)"
      "next_number e (date_tag_of (now e)) (existing_dirs_of e fs1) = Inr n"
    and short: "short_path_platform (platform e)"
      "path_budget e (job_dir_prefix_of (date_tag_of (now e)) n (sanitize s)) < 1"
    by blast
  from short show ?lhs
    by (simp add: create_reaches [OF st] max_job_name_prefix_of_def)
next
  assume l: ?lhs
  obtain r1 fs1 where st1: "ensure_month_dir e fs = (r1, fs1)" by (cases "ensure_month_dir e fs")
  show ?rhs
  proof (cases r1)
    case (Inl err)
    with st1 l create_stage_failures(1) [of e fs err fs1 s j] ensure_month_dir_errors [of e fs err fs1]
    show ?thesis by auto
  next
    case (Inr u)
    note st1' = st1 [unfolded Inr]
    show ?thesis
    proof (cases "next_number e (date_tag_of (now e)) (existing_dirs_of e fs1)")
      case (Inl err)
      with l create_stage_failures(2) [OF st1' Inl, of s j] next_number_errors [OF Inl]
      show ?thesis by simp
    next
      case n: (Inr n)
      let ?prefix = "job_dir_prefix_of (date_tag_of (now e)) n (sanitize s)"
      show ?thesis
      proof (cases "max_job_name_prefix_of e ?prefix")
        case (Inl err)
        from max_job_name_prefix_errors [OF Inl] st1' n show ?thesis by blast
      next
        case (Inr k)
        let ?p = "os_path_join e (month_dir_of e) (?prefix @ slice_to k (sanitize j))"
        obtain r2 fs2 where mk: "os_makedirs e fs1 ?p = (r2, fs2)"
          by (cases "os_makedirs e fs1 ?p")
        with l Inr have "r2 = Inl RuntimeError"
          by (cases r2) (simp_all add: create_reaches [OF st1' n])
        with mk os_makedirs_errors [of e fs1 ?p RuntimeError fs2] show ?thesis by simp
      qed
    qed
  qed
qed

section \<open>Evaluating the function in a concrete environment\<close>

text \<open>
  The definitions that read the environment are unfolded and the values read are
  replaced by their literal values; what is left is evaluated on literals.
\<close>

lemma digit_char_simps:
  "digit_char 0 = CHR ''0''" "digit_char 1 = CHR ''1''" "digit_char (Suc 0) = CHR ''1''"
  "digit_char 2 = CHR ''2''" "digit_char 3 = CHR ''3''" "digit_char 4 = CHR ''4''"
  "digit_char 5 = CHR ''5''" "digit_char 6 = CHR ''6''" "digit_char 7 = CHR ''7''"
  "digit_char 8 = CHR ''8''" "digit_char 9 = CHR ''9''"
  using digit_char_table by simp_all

lemmas tag_defs =
  digit_char_simps str_nat.simps zfill_def month_tag_of_def date_tag_of_def
  job_history_dir_of_def month_dir_of_def os_path_expanduser_def os_path_join_def
  expanduser_def posix_join_def

lemmas env_layer =
  create_job_history_bundle_dir_def ensure_month_dir_def existing_dirs_of_def
  next_number_def sequence_token_def max_job_name_prefix_of_def path_budget_def
  os_path_join_def os_path_abspath_def os_path_basename_def os_path_isdir_def os_makedirs_def
  glob_glob_def posix_abspath_def getcwd_def

lemma env_linux_facts:
  "platform env_linux = ''linux''"
  "month_dir_of env_linux = ''/tmp/history/2023-01''"
  "date_tag_of (now env_linux) = ''2023-01-15''"
  "cwd env_linux = [''home'', ''user'']"
  "glob_other env_linux = (\<lambda>fs pattern. [])"
  "nt env_linux = nt_sample"
  by (simp_all add: tag_defs env_linux_def)

lemma env_cygwin_long_facts:
  "platform env_cygwin_long = ''cygwin''"
  "month_dir_of env_cygwin_long = ''/tmp/'' @ replicate 135 CHR ''d'' @ ''/2024-12''"
  "date_tag_of (now env_cygwin_long) = ''2024-12-27''"
  "cwd env_cygwin_long = [''home'', ''user'']"
  "glob_other env_cygwin_long = (\<lambda>fs pattern. [])"
  "nt env_cygwin_long = nt_sample"
  by (simp_all add: tag_defs env_cygwin_long_def)

lemma env_linux_long_facts:
  "platform env_linux_long = ''linux''"
  "month_dir_of env_linux_long = ''/tmp/'' @ replicate 135 CHR ''d'' @ ''/2024-12''"
  "date_tag_of (now env_linux_long) = ''2024-12-27''"
  "cwd env_linux_long = [''home'', ''user'']"
  "glob_other env_linux_long = (\<lambda>fs pattern. [])"
  "nt env_linux_long = nt_sample"
  by (simp_all add: tag_defs env_linux_long_def env_cygwin_long_def)

lemma env_win32_facts:
  "platform env_win32 = ''win32''"
  "month_dir_of env_win32 = ''C:'' @ [CHR 0x5C] @ replicate 175 CHR ''d'' @ [CHR 0x5C] @ ''2024-12''"
  "date_tag_of (now env_win32) = ''2024-12-27''"
  "cwd env_win32 = []"
  "glob_other env_win32 = (\<lambda>fs pattern. [])"
  "nt env_win32 = nt_sample"
  by (simp_all add: tag_defs env_win32_def nt_sample_def)

lemma env_cygwin_dots_facts:
  "platform env_cygwin_dots = ''cygwin''"
  "month_dir_of env_cygwin_dots = ''/tmp/'' @ concat (replicate 100 ''./'') @ ''h/2024-12''"
  "date_tag_of (now env_cygwin_dots) = ''2024-12-27''"
  "cwd env_cygwin_dots = [''home'', ''user'']"
  "glob_other env_cygwin_dots = (\<lambda>fs pattern. [])"
  "nt env_cygwin_dots = nt_sample"
  by (simp_all add: tag_defs env_cygwin_dots_def)

section \<open>What a successful call leaves behind\<close>

lemma node_exists_mono:
  assumes "set (dirs fs) \<subseteq> set (dirs fs')" and "files fs' = files fs" and "node_exists fs n"
  shows "node_exists fs' n"
  using assms by (auto simp: node_exists_def is_dir_def)

lemma isabs_join: "valid_name w \<Longrightarrow> isabs (posix_join a w) = isabs a"
  by (cases a; cases w) (auto simp: isabs_def posix_join_valid dir_prefix_def valid_name_def)

lemma lookup_walk:
  "lookup fs wd p = Inr n \<Longrightarrow> walk fs (start_node wd p) (split_slash p) = Inr n \<and> node_exists fs n"
  by (auto simp: lookup_def split: if_splits sum.splits)

lemma create_success_node:
  assumes px: "platform e \<noteq> ''win32''"
    and run: "create_job_history_bundle_dir e fs s j = (Inr p, fs')"
  shows "\<exists>node. lookup fs' (cwd e) p = Inr node \<and> is_dir fs' node \<and> \<not> node_exists fs node
           \<and> files fs' = files fs \<and> set (dirs fs) \<subseteq> set (dirs fs')"
proof -
  from create_success [OF run] obtain u fs1 n k u2
    where st1: "ensure_month_dir e fs = (Inr u, fs1)"
      and p: "p = posix_join (month_dir_of e)
                    (job_dir_prefix_of (date_tag_of (now e)) n (sanitize s) @ slice_to k (sanitize j))"
      and mk: "makedirs fs1 (cwd e) p = (Inr u2, fs')"
    unfolding posix_platform [OF px] by blast
  let ?w = "job_dir_prefix_of (date_tag_of (now e)) n (sanitize s) @ slice_to k (sanitize j)"
  have w: "valid_name ?w" by (rule bundle_name_valid [OF slice_sanitize_no_slash])
  from makedirs_join_success [OF w mk [unfolded p]] obtain fs2 new2
    where md: "os_mkdir fs2 (cwd e) p = (Inr u2, fs')"
      and f2: "files fs2 = files fs1" and d2: "dirs fs2 = dirs fs1 @ new2"
    unfolding p by blast
  from os_mkdir_join_success [OF w md [unfolded p]] obtain parent
    where fs': "fs' = fs2\<lparr>dirs := dirs fs2 @ [parent @ [?w]]\<rparr>"
      and new: "\<not> node_exists fs2 (parent @ [?w])"
      and look: "lookup fs' (cwd e) p = Inr (parent @ [?w])"
    unfolding p by blast
  from ensure_month_dir_frame [OF px st1] obtain new1
    where f1: "files fs1 = files fs" and d1: "dirs fs1 = dirs fs @ new1" by blast
  have sub: "set (dirs fs) \<subseteq> set (dirs fs2)" by (auto simp: d1 d2)
  have "\<not> node_exists fs (parent @ [?w])"
    using new node_exists_mono [OF sub, of "parent @ [?w]"] f1 f2 by auto
  moreover have "is_dir fs' (parent @ [?w])" by (simp add: fs' is_dir_def)
  moreover have "files fs' = files fs" by (simp add: fs' f1 f2)
  moreover have "set (dirs fs) \<subseteq> set (dirs fs')" using sub by (auto simp: fs')
  ultimately show ?thesis using look by blast
qed

section \<open>The claims\<close>

text \<open>
  Claim C4. For every input string, sanitization returns exactly the characters of the
  input that are alphanumeric, a space, a hyphen or an underscore, in their order in the
  input. No slash, no backslash and no dot is among them, so no run of two dots is left,
  and the two names of the path traversal test are reduced to \<open>SubmitterThree\<close>
  and \<open>JobThree\<close>.
\<close>

theorem sanitize_keeps_permitted_characters:
  "sanitize s = filter (\<lambda>c. isalnum c \<or> c = CHR '' '' \<or> c = CHR ''-'' \<or> c = CHR ''_'') s
   \<and> CHR ''/'' \<notin> set (sanitize s)
   \<and> CHR 0x5C \<notin> set (sanitize s)
   \<and> (\<nexists>u v. sanitize s = u @ ''..'' @ v)
   \<and> sanitize ([CHR 0x5C] @ ''..'' @ [CHR 0x5C] @ ''..'' @ [CHR 0x5C] @ ''..'' @ [CHR 0x5C]
                 @ ''SubmitterThree'') = ''SubmitterThree''
   \<and> sanitize ''./../../Job/Three'' = ''JobThree''"
proof -
  have keep: "keep_char = (\<lambda>c. isalnum c \<or> c = CHR '' '' \<or> c = CHR ''-'' \<or> c = CHR ''_'')"
    by (auto simp: keep_char_def fun_eq_iff)
  have filtered: "sanitize s = filter (\<lambda>c. isalnum c \<or> c = CHR '' '' \<or> c = CHR ''-'' \<or> c = CHR ''_'') s"
    using sanitize_filter [of s] by (simp only: keep)
  have slash: "CHR ''/'' \<notin> set (sanitize s)"
    using keep_char_slash by (simp add: set_sanitize)
  have backslash: "CHR 0x5C \<notin> set (sanitize s)"
    using keep_char_backslash by (simp add: set_sanitize)
  have "CHR ''.'' \<notin> set (sanitize s)"
    using keep_char_dot by (simp add: set_sanitize)
  then have dots: "\<nexists>u v. sanitize s = u @ ''..'' @ v"
    by (rule no_dot_no_dotdot)
  have submitter: "sanitize ([CHR 0x5C] @ ''..'' @ [CHR 0x5C] @ ''..'' @ [CHR 0x5C] @ ''..''
                     @ [CHR 0x5C] @ ''SubmitterThree'') = ''SubmitterThree''"
    by (simp add: keep_char_def isalnum_def)
  have job: "sanitize ''./../../Job/Three'' = ''JobThree''"
    by (simp add: keep_char_def isalnum_def)
  from filtered slash backslash dots submitter job show ?thesis by blast
qed

text \<open>
  Claim C8. Sanitization is idempotent: sanitizing a sanitized string returns it
  unchanged.
\<close>

theorem sanitize_idempotent: "sanitize (sanitize s) = sanitize s"
  by (simp add: sanitize_filter)

text \<open>
  Claim C7. On a platform without the short-path constraint the call never raises the
  \<^verbatim>\<open>RuntimeError\<close> of line 65, whatever the length of the root, and the job name part of
  a returned path is the first 128 characters of the sanitized job name. In the setting of
  the truncation test the call returns a path of more than 256 characters.
\<close>

theorem unconstrained_platform_cap:
  assumes "\<not> short_path_platform (platform e)"
  shows "fst (create_job_history_bundle_dir e fs s j) \<noteq> Inl RuntimeError
         \<and> (\<forall>p. fst (create_job_history_bundle_dir e fs s j) = Inr p \<longrightarrow>
              (\<exists>n. p = posix_join (month_dir_of e)
                         (job_dir_prefix_of (date_tag_of (now e)) n (sanitize s)
                          @ take 128 (sanitize j))))"
proof (intro conjI allI impI)
  show "fst (create_job_history_bundle_dir e fs s j) \<noteq> Inl RuntimeError"
    using assms by (simp add: create_runtime_error)
next
  fix p
  assume "fst (create_job_history_bundle_dir e fs s j) = Inr p"
  then obtain fs' where "create_job_history_bundle_dir e fs s j = (Inr p, fs')"
    by (cases "create_job_history_bundle_dir e fs s j") simp
  from create_success [OF this] obtain n k
    where k: "max_job_name_prefix_of e (job_dir_prefix_of (date_tag_of (now e)) n (sanitize s)) = Inr k"
      and p: "p = posix_join (month_dir_of e)
                    (job_dir_prefix_of (date_tag_of (now e)) n (sanitize s) @ slice_to k (sanitize j))"
    unfolding posix_platform [OF not_short_path_posix [OF assms]] by blast
  from max_job_name_prefix_value [OF k] assms have "k = 128" by simp
  with p show "\<exists>n. p = posix_join (month_dir_of e)
                          (job_dir_prefix_of (date_tag_of (now e)) n (sanitize s)
                           @ take 128 (sanitize j))"
    by (auto simp: slice_to_def)
qed

theorem unconstrained_platform_cap_witness:
  "\<not> short_path_platform (platform env_linux_long)
   \<and> fst (create_job_history_bundle_dir env_linux_long fs_tmp ''MySubmitter'' job_name_127)
       = Inr (''/tmp/'' @ replicate 135 CHR ''d'' @ ''/2024-12/2024-12-27-01-MySubmitter-''
              @ job_name_127)
   \<and> fst (create_job_history_bundle_dir env_linux_long fs_tmp ''MySubmitter'' job_name_127)
       \<noteq> Inl RuntimeError
   \<and> 256 < length (''/tmp/'' @ replicate 135 CHR ''d'' @ ''/2024-12/2024-12-27-01-MySubmitter-''
                    @ job_name_127)"
proof -
  have long: "\<not> short_path_platform (platform env_linux_long)"
    by (simp add: env_linux_long_facts short_path_platform_def)
  have run: "fst (create_job_history_bundle_dir env_linux_long fs_tmp ''MySubmitter'' job_name_127)
       = Inr (''/tmp/'' @ replicate 135 CHR ''d'' @ ''/2024-12/2024-12-27-01-MySubmitter-''
              @ job_name_127)"
    unfolding env_layer env_linux_long_facts by code_simp
  have len: "256 < length (''/tmp/'' @ replicate 135 CHR ''d''
                 @ ''/2024-12/2024-12-27-01-MySubmitter-'' @ job_name_127)"
    by code_simp
  from unconstrained_platform_cap [OF long, of fs_tmp "''MySubmitter''" job_name_127]
  have "fst (create_job_history_bundle_dir env_linux_long fs_tmp ''MySubmitter'' job_name_127)
        \<noteq> Inl RuntimeError"
    by blast
  with long run len show ?thesis by blast
qed

text \<open>
  Claim C3, as amended. On a short-path platform (\<^verbatim>\<open>win32\<close> or \<^verbatim>\<open>cygwin\<close>) the budget of
  the job name is the minimum of 128 and 207 minus the length of the absolute path of
  the month bucket joined with the prefix \<open>date-sequence-submitter-\<close>. The call raises
  the \<^verbatim>\<open>RuntimeError\<close> of line 65 exactly when it reaches that computation (the month
  bucket is there and the sequence number was read) and the budget is below 1. A call
  that returns has truncated the sanitized job name to the budget. The bound of 207
  characters is on the absolute path of the returned directory, not on the returned
  string: it holds under Cygwin, and on either platform whenever appending characters to
  the last component of the joined path makes its absolute path longer by no more than
  their number.
\<close>

theorem short_path_budget:
  assumes "short_path_platform (platform e)"
  shows "((fst (create_job_history_bundle_dir e fs s j) = Inl RuntimeError) =
            (\<exists>u fs1 n.
               ensure_month_dir e fs = (Inr u, fs1)
               \<and> next_number e (date_tag_of (now e)) (existing_dirs_of e fs1) = Inr n
               \<and> min (207 - int (length (os_path_abspath e (os_path_join e (month_dir_of e)
                          (job_dir_prefix_of (date_tag_of (now e)) n (sanitize s)))))) 128 < 1))
         \<and> (\<forall>p. fst (create_job_history_bundle_dir e fs s j) = Inr p \<longrightarrow>
              (\<exists>u fs1 n b.
                 ensure_month_dir e fs = (Inr u, fs1)
                 \<and> next_number e (date_tag_of (now e)) (existing_dirs_of e fs1) = Inr n
                 \<and> b = min (207 - int (length (os_path_abspath e (os_path_join e (month_dir_of e)
                              (job_dir_prefix_of (date_tag_of (now e)) n (sanitize s)))))) 128
                 \<and> 1 \<le> b
                 \<and> p = os_path_join e (month_dir_of e)
                          (job_dir_prefix_of (date_tag_of (now e)) n (sanitize s)
                           @ take (nat b) (sanitize j))
                 \<and> (platform e = ''cygwin'' \<longrightarrow> length (os_path_abspath e p) \<le> 207)
                 \<and> ((\<forall>t. length (os_path_abspath e (os_path_join e (month_dir_of e)
                                 (job_dir_prefix_of (date_tag_of (now e)) n (sanitize s) @ t)))
                          \<le> length (os_path_abspath e (os_path_join e (month_dir_of e)
                                 (job_dir_prefix_of (date_tag_of (now e)) n (sanitize s))))
                            + length t)
                      \<longrightarrow> length (os_path_abspath e p) \<le> 207)))"
proof (intro conjI allI impI)
  show "(fst (create_job_history_bundle_dir e fs s j) = Inl RuntimeError) =
          (\<exists>u fs1 n.
             ensure_month_dir e fs = (Inr u, fs1)
             \<and> next_number e (date_tag_of (now e)) (existing_dirs_of e fs1) = Inr n
             \<and> min (207 - int (length (os_path_abspath e (os_path_join e (month_dir_of e)
                        (job_dir_prefix_of (date_tag_of (now e)) n (sanitize s)))))) 128 < 1)"
    using assms by (simp add: create_runtime_error path_budget_def)
next
  fix p
  assume "fst (create_job_history_bundle_dir e fs s j) = Inr p"
  then obtain fs' where "create_job_history_bundle_dir e fs s j = (Inr p, fs')"
    by (cases "create_job_history_bundle_dir e fs s j") simp
  from create_success [OF this] obtain u fs1 n k
    where st1: "ensure_month_dir e fs = (Inr u, fs1)"
      and st2: "next_number e (date_tag_of (now e)) (existing_dirs_of e fs1) = Inr n"
      and k: "max_job_name_prefix_of e (job_dir_prefix_of (date_tag_of (now e)) n (sanitize s)) = Inr k"
      and p: "p = os_path_join e (month_dir_of e)
                    (job_dir_prefix_of (date_tag_of (now e)) n (sanitize s) @ slice_to k (sanitize j))"
    by blast
  let ?prefix = "job_dir_prefix_of (date_tag_of (now e)) n (sanitize s)"
  let ?a = "length (os_path_abspath e (os_path_join e (month_dir_of e) ?prefix))"
  let ?b = "min (207 - int ?a) 128"
  from max_job_name_prefix_value [OF k] have k1: "1 \<le> k" by (rule conjunct2)
  from max_job_name_prefix_value [OF k] assms have kb: "k = ?b"
    by (simp add: path_budget_def)
  from k1 have slice: "slice_to k (sanitize j) = take (nat k) (sanitize j)"
    by (simp add: slice_to_def)
  have bound: "length (os_path_abspath e p) \<le> 207"
    if "length (os_path_abspath e p) \<le> ?a + length (take (nat k) (sanitize j))"
  proof -
    have "length (take (nat k) (sanitize j)) \<le> nat k" by simp
    with that have "int (length (os_path_abspath e p)) \<le> int ?a + k"
      using k1 by simp
    with kb show ?thesis by simp
  qed
  have cyg: "length (os_path_abspath e p) \<le> 207" if c: "platform e = ''cygwin''"
  proof -
    from c have px: "platform e \<noteq> ''win32''" by simp
    obtain d r where hd: "?prefix = d # r" "is_digit d"
      using job_dir_prefix_hd by blast
    have "posix_abspath e (posix_join (month_dir_of e) (?prefix @ take (nat k) (sanitize j)))
          = posix_abspath e (posix_join (month_dir_of e) ?prefix) @ take (nat k) (sanitize j)"
      by (rule posix_abspath_tail [OF hd job_dir_prefix_no_slash])
         (use sanitize_no_slash [of j] in \<open>auto dest: in_set_takeD\<close>)
    then have "length (os_path_abspath e p) = ?a + length (take (nat k) (sanitize j))"
      unfolding p slice posix_platform [OF px] by simp
    then show ?thesis by (intro bound) simp
  qed
  have lib: "length (os_path_abspath e p) \<le> 207"
    if "\<forall>t. length (os_path_abspath e (os_path_join e (month_dir_of e) (?prefix @ t)))
             \<le> ?a + length t"
  proof (rule bound)
    from that show "length (os_path_abspath e p) \<le> ?a + length (take (nat k) (sanitize j))"
      unfolding p slice by blast
  qed
  from st1 st2 kb k1 p slice cyg lib
  show "\<exists>u fs1 n b.
          ensure_month_dir e fs = (Inr u, fs1)
          \<and> next_number e (date_tag_of (now e)) (existing_dirs_of e fs1) = Inr n
          \<and> b = min (207 - int (length (os_path_abspath e (os_path_join e (month_dir_of e)
                       (job_dir_prefix_of (date_tag_of (now e)) n (sanitize s)))))) 128
          \<and> 1 \<le> b
          \<and> p = os_path_join e (month_dir_of e)
                   (job_dir_prefix_of (date_tag_of (now e)) n (sanitize s)
                    @ take (nat b) (sanitize j))
          \<and> (platform e = ''cygwin'' \<longrightarrow> length (os_path_abspath e p) \<le> 207)
          \<and> ((\<forall>t. length (os_path_abspath e (os_path_join e (month_dir_of e)
                          (job_dir_prefix_of (date_tag_of (now e)) n (sanitize s) @ t)))
                   \<le> length (os_path_abspath e (os_path_join e (month_dir_of e)
                          (job_dir_prefix_of (date_tag_of (now e)) n (sanitize s))))
                     + length t)
               \<longrightarrow> length (os_path_abspath e p) \<le> 207)"
    by (intro exI [of _ u] exI [of _ fs1] exI [of _ n] exI [of _ k]) simp
qed

theorem short_path_budget_witness:
  "short_path_platform (platform env_cygwin_long)
   \<and> fst (create_job_history_bundle_dir env_cygwin_long fs_tmp ''MySubmitter'' job_name_127)
       = Inr (''/tmp/'' @ replicate 135 CHR ''d'' @ ''/2024-12/2024-12-27-01-MySubmitter-''
              @ take 32 job_name_127)
   \<and> length (os_path_abspath env_cygwin_long
               (''/tmp/'' @ replicate 135 CHR ''d'' @ ''/2024-12/2024-12-27-01-MySubmitter-''
                @ take 32 job_name_127)) \<le> 207
   \<and> short_path_platform (platform env_win32)
   \<and> fst (create_job_history_bundle_dir env_win32 fs_empty ''S'' ''jobname'')
       = Inr (''C:'' @ [CHR 0x5C] @ replicate 175 CHR ''d'' @ [CHR 0x5C] @ ''2024-12''
              @ [CHR 0x5C] @ ''2024-12-27-01-S-jobn'')
   \<and> length (os_path_abspath env_win32
               (''C:'' @ [CHR 0x5C] @ replicate 175 CHR ''d'' @ [CHR 0x5C] @ ''2024-12''
                @ [CHR 0x5C] @ ''2024-12-27-01-S-jobn'')) \<le> 207"
proof -
  have short: "short_path_platform (platform env_cygwin_long)"
    unfolding env_cygwin_long_facts short_path_platform_def by simp
  have run: "fst (create_job_history_bundle_dir env_cygwin_long fs_tmp ''MySubmitter'' job_name_127)
       = Inr (''/tmp/'' @ replicate 135 CHR ''d'' @ ''/2024-12/2024-12-27-01-MySubmitter-''
              @ take 32 job_name_127)"
    unfolding env_layer env_cygwin_long_facts by code_simp
  from short_path_budget [OF short, of fs_tmp "''MySubmitter''" job_name_127]
  have "\<forall>p. fst (create_job_history_bundle_dir env_cygwin_long fs_tmp ''MySubmitter'' job_name_127)
              = Inr p
          \<longrightarrow> (platform env_cygwin_long = ''cygwin''
               \<longrightarrow> length (os_path_abspath env_cygwin_long p) \<le> 207)"
    by blast
  from this [rule_format, OF run env_cygwin_long_facts(1)]
  have len: "length (os_path_abspath env_cygwin_long
               (''/tmp/'' @ replicate 135 CHR ''d'' @ ''/2024-12/2024-12-27-01-MySubmitter-''
                @ take 32 job_name_127)) \<le> 207" .
  have short_nt: "short_path_platform (platform env_win32)"
    unfolding env_win32_facts short_path_platform_def by simp
  have run_nt: "fst (create_job_history_bundle_dir env_win32 fs_empty ''S'' ''jobname'')
       = Inr (''C:'' @ [CHR 0x5C] @ replicate 175 CHR ''d'' @ [CHR 0x5C] @ ''2024-12''
              @ [CHR 0x5C] @ ''2024-12-27-01-S-jobn'')"
    unfolding env_layer env_win32_facts by code_simp
  have lib: "\<forall>m w t. length (os_path_abspath env_win32 (os_path_join env_win32 m (w @ t)))
             \<le> length (os_path_abspath env_win32 (os_path_join env_win32 m w)) + length t"
    by (simp add: os_path_abspath_def os_path_join_def env_win32_facts(1,6) nt_sample_def)
  from short_path_budget [OF short_nt, of fs_empty "''S''" "''jobname''"] lib
  have "\<forall>p. fst (create_job_history_bundle_dir env_win32 fs_empty ''S'' ''jobname'') = Inr p
          \<longrightarrow> length (os_path_abspath env_win32 p) \<le> 207"
    by blast
  from this [rule_format, OF run_nt]
  have len_nt: "length (os_path_abspath env_win32
               (''C:'' @ [CHR 0x5C] @ replicate 175 CHR ''d'' @ [CHR 0x5C] @ ''2024-12''
                @ [CHR 0x5C] @ ''2024-12-27-01-S-jobn'')) \<le> 207" .
  from short run len short_nt run_nt len_nt show ?thesis by (intro conjI)
qed

text \<open>
  Under Cygwin, with the history root \<^verbatim>\<open>/tmp/./././\<close>...\<^verbatim>\<open>/h\<close>, the call succeeds and
  the path it returns, the job name not shortened, has 238 characters.
\<close>

theorem short_path_returned_string_counterexample:
  "short_path_platform (platform env_cygwin_dots)
   \<and> fst (create_job_history_bundle_dir env_cygwin_dots fs_tmp ''S'' ''jobname'')
       = Inr (''/tmp/'' @ concat (replicate 100 ''./'') @ ''h/2024-12/2024-12-27-01-S-jobname'')
   \<and> length (''/tmp/'' @ concat (replicate 100 ''./'') @ ''h/2024-12/2024-12-27-01-S-jobname'')
       = 238"
proof -
  have short: "short_path_platform (platform env_cygwin_dots)"
    unfolding env_cygwin_dots_facts short_path_platform_def by simp
  have run: "fst (create_job_history_bundle_dir env_cygwin_dots fs_tmp ''S'' ''jobname'')
       = Inr (''/tmp/'' @ concat (replicate 100 ''./'') @ ''h/2024-12/2024-12-27-01-S-jobname'')"
    unfolding env_layer env_cygwin_dots_facts by code_simp
  have len: "length (''/tmp/'' @ concat (replicate 100 ''./'') @ ''h/2024-12/2024-12-27-01-S-jobname'')
       = 238"
    by code_simp
  from short run len show ?thesis by (intro conjI)
qed

end
